theory Spec2Isabelle
  imports Main
begin

section \<open>JavaScript strings\<close>

text \<open>
  A JavaScript string is a sequence of UTF-16 code units; a code unit is modelled as a
  natural number (below \<open>0x10000\<close> in every string the program can hold), a byte of a
  \<open>Uint8Array\<close> as a natural number below 256. String literals of the source are written
  \<open>js ''...''\<close>.
\<close>

type_synonym jsstring = "nat list"

definition js :: "string \<Rightarrow> jsstring" where
  "js s = map of_char s"

text \<open>
  The code units matched by \<open>\s\<close> in a regular expression and removed by
  \<open>String.prototype.trim\<close>: the WhiteSpace and LineTerminator productions of ECMAScript.
\<close>

definition isLineTerminator :: "nat \<Rightarrow> bool" where
  "isLineTerminator c \<longleftrightarrow> c = 0x0A \<or> c = 0x0D \<or> c = 0x2028 \<or> c = 0x2029"

definition isWhiteSpace :: "nat \<Rightarrow> bool" where
  "isWhiteSpace c \<longleftrightarrow>
     c = 0x09 \<or> c = 0x0A \<or> c = 0x0B \<or> c = 0x0C \<or> c = 0x0D \<or> c = 0x20 \<or> c = 0xA0 \<or>
     c = 0x1680 \<or> (0x2000 \<le> c \<and> c \<le> 0x200A) \<or> c = 0x2028 \<or> c = 0x2029 \<or>
     c = 0x202F \<or> c = 0x205F \<or> c = 0x3000 \<or> c = 0xFEFF"

definition trim :: "jsstring \<Rightarrow> jsstring" where
  "trim s = rev (dropWhile isWhiteSpace (rev (dropWhile isWhiteSpace s)))"

text \<open>
  The lower-casing of the ASCII letters; the regular expression with the flag \<open>i\<close> below
  compares code units up to it.
\<close>

definition lowerUnit :: "nat \<Rightarrow> nat" where
  "lowerUnit c = (if 0x41 \<le> c \<and> c \<le> 0x5A then c + 0x20 else c)"

text \<open>
  \<open>String.prototype.toLowerCase\<close> converts the string to code points, applies the
  lower-case conversion of the Unicode standard (the lower-case mappings of the Unicode
  Character Database and its one conditional rule that is not tied to a language, the final
  sigma), and converts back. The tables below are those of Unicode 14.0, written as rules:
  \<open>(lo, hi, step, targets)\<close> maps the code point \<open>lo + k * step\<close>, up to \<open>hi\<close>, to the
  targets moved by \<open>k * step\<close>.
\<close>

type_synonym caseRule = "nat \<times> nat \<times> nat \<times> nat list"

definition lowerRules :: "caseRule list" where
  "lowerRules = [
     (0x41, 0x5A, 1, [0x61]), (0xC0, 0xD6, 1, [0xE0]), (0xD8, 0xDE, 1, [0xF8]),
     (0x100, 0x12E, 2, [0x101]), (0x130, 0x130, 1, [0x69, 0x307]), (0x132, 0x136, 2, [0x133]),
     (0x139, 0x147, 2, [0x13A]), (0x14A, 0x176, 2, [0x14B]), (0x178, 0x178, 1, [0xFF]),
     (0x179, 0x17D, 2, [0x17A]), (0x181, 0x181, 1, [0x253]), (0x182, 0x184, 2, [0x183]),
     (0x186, 0x186, 1, [0x254]), (0x187, 0x187, 1, [0x188]), (0x189, 0x18A, 1, [0x256]),
     (0x18B, 0x18B, 1, [0x18C]), (0x18E, 0x18E, 1, [0x1DD]), (0x18F, 0x18F, 1, [0x259]),
     (0x190, 0x190, 1, [0x25B]), (0x191, 0x191, 1, [0x192]), (0x193, 0x193, 1, [0x260]),
     (0x194, 0x194, 1, [0x263]), (0x196, 0x196, 1, [0x269]), (0x197, 0x197, 1, [0x268]),
     (0x198, 0x198, 1, [0x199]), (0x19C, 0x19C, 1, [0x26F]), (0x19D, 0x19D, 1, [0x272]),
     (0x19F, 0x19F, 1, [0x275]), (0x1A0, 0x1A4, 2, [0x1A1]), (0x1A6, 0x1A6, 1, [0x280]),
     (0x1A7, 0x1A7, 1, [0x1A8]), (0x1A9, 0x1A9, 1, [0x283]), (0x1AC, 0x1AC, 1, [0x1AD]),
     (0x1AE, 0x1AE, 1, [0x288]), (0x1AF, 0x1AF, 1, [0x1B0]), (0x1B1, 0x1B2, 1, [0x28A]),
     (0x1B3, 0x1B5, 2, [0x1B4]), (0x1B7, 0x1B7, 1, [0x292]), (0x1B8, 0x1B8, 1, [0x1B9]),
     (0x1BC, 0x1BC, 1, [0x1BD]), (0x1C4, 0x1C4, 1, [0x1C6]), (0x1C5, 0x1C5, 1, [0x1C6]),
     (0x1C7, 0x1C7, 1, [0x1C9]), (0x1C8, 0x1C8, 1, [0x1C9]), (0x1CA, 0x1CA, 1, [0x1CC]),
     (0x1CB, 0x1DB, 2, [0x1CC]), (0x1DE, 0x1EE, 2, [0x1DF]), (0x1F1, 0x1F1, 1, [0x1F3]),
     (0x1F2, 0x1F4, 2, [0x1F3]), (0x1F6, 0x1F6, 1, [0x195]), (0x1F7, 0x1F7, 1, [0x1BF]),
     (0x1F8, 0x21E, 2, [0x1F9]), (0x220, 0x220, 1, [0x19E]), (0x222, 0x232, 2, [0x223]),
     (0x23A, 0x23A, 1, [0x2C65]), (0x23B, 0x23B, 1, [0x23C]), (0x23D, 0x23D, 1, [0x19A]),
     (0x23E, 0x23E, 1, [0x2C66]), (0x241, 0x241, 1, [0x242]), (0x243, 0x243, 1, [0x180]),
     (0x244, 0x244, 1, [0x289]), (0x245, 0x245, 1, [0x28C]), (0x246, 0x24E, 2, [0x247]),
     (0x370, 0x372, 2, [0x371]), (0x376, 0x376, 1, [0x377]), (0x37F, 0x37F, 1, [0x3F3]),
     (0x386, 0x386, 1, [0x3AC]), (0x388, 0x38A, 1, [0x3AD]), (0x38C, 0x38C, 1, [0x3CC]),
     (0x38E, 0x38F, 1, [0x3CD]), (0x391, 0x3A1, 1, [0x3B1]), (0x3A3, 0x3AB, 1, [0x3C3]),
     (0x3CF, 0x3CF, 1, [0x3D7]), (0x3D8, 0x3EE, 2, [0x3D9]), (0x3F4, 0x3F4, 1, [0x3B8]),
     (0x3F7, 0x3F7, 1, [0x3F8]), (0x3F9, 0x3F9, 1, [0x3F2]), (0x3FA, 0x3FA, 1, [0x3FB]),
     (0x3FD, 0x3FF, 1, [0x37B]), (0x400, 0x40F, 1, [0x450]), (0x410, 0x42F, 1, [0x430]),
     (0x460, 0x480, 2, [0x461]), (0x48A, 0x4BE, 2, [0x48B]), (0x4C0, 0x4C0, 1, [0x4CF]),
     (0x4C1, 0x4CD, 2, [0x4C2]), (0x4D0, 0x52E, 2, [0x4D1]), (0x531, 0x556, 1, [0x561]),
     (0x10A0, 0x10C5, 1, [0x2D00]), (0x10C7, 0x10C7, 1, [0x2D27]), (0x10CD, 0x10CD, 1, [0x2D2D]),
     (0x13A0, 0x13EF, 1, [0xAB70]), (0x13F0, 0x13F5, 1, [0x13F8]), (0x1C90, 0x1CBA, 1, [0x10D0]),
     (0x1CBD, 0x1CBF, 1, [0x10FD]), (0x1E00, 0x1E94, 2, [0x1E01]), (0x1E9E, 0x1E9E, 1, [0xDF]),
     (0x1EA0, 0x1EFE, 2, [0x1EA1]), (0x1F08, 0x1F0F, 1, [0x1F00]), (0x1F18, 0x1F1D, 1, [0x1F10]),
     (0x1F28, 0x1F2F, 1, [0x1F20]), (0x1F38, 0x1F3F, 1, [0x1F30]), (0x1F48, 0x1F4D, 1, [0x1F40]),
     (0x1F59, 0x1F5F, 2, [0x1F51]), (0x1F68, 0x1F6F, 1, [0x1F60]), (0x1F88, 0x1F8F, 1, [0x1F80]),
     (0x1F98, 0x1F9F, 1, [0x1F90]), (0x1FA8, 0x1FAF, 1, [0x1FA0]), (0x1FB8, 0x1FB9, 1, [0x1FB0]),
     (0x1FBA, 0x1FBB, 1, [0x1F70]), (0x1FBC, 0x1FBC, 1, [0x1FB3]), (0x1FC8, 0x1FCB, 1, [0x1F72]),
     (0x1FCC, 0x1FCC, 1, [0x1FC3]), (0x1FD8, 0x1FD9, 1, [0x1FD0]), (0x1FDA, 0x1FDB, 1, [0x1F76]),
     (0x1FE8, 0x1FE9, 1, [0x1FE0]), (0x1FEA, 0x1FEB, 1, [0x1F7A]), (0x1FEC, 0x1FEC, 1, [0x1FE5]),
     (0x1FF8, 0x1FF9, 1, [0x1F78]), (0x1FFA, 0x1FFB, 1, [0x1F7C]), (0x1FFC, 0x1FFC, 1, [0x1FF3]),
     (0x2126, 0x2126, 1, [0x3C9]), (0x212A, 0x212A, 1, [0x6B]), (0x212B, 0x212B, 1, [0xE5]),
     (0x2132, 0x2132, 1, [0x214E]), (0x2160, 0x216F, 1, [0x2170]), (0x2183, 0x2183, 1, [0x2184]),
     (0x24B6, 0x24CF, 1, [0x24D0]), (0x2C00, 0x2C2F, 1, [0x2C30]), (0x2C60, 0x2C60, 1, [0x2C61]),
     (0x2C62, 0x2C62, 1, [0x26B]), (0x2C63, 0x2C63, 1, [0x1D7D]), (0x2C64, 0x2C64, 1, [0x27D]),
     (0x2C67, 0x2C6B, 2, [0x2C68]), (0x2C6D, 0x2C6D, 1, [0x251]), (0x2C6E, 0x2C6E, 1, [0x271]),
     (0x2C6F, 0x2C6F, 1, [0x250]), (0x2C70, 0x2C70, 1, [0x252]), (0x2C72, 0x2C72, 1, [0x2C73]),
     (0x2C75, 0x2C75, 1, [0x2C76]), (0x2C7E, 0x2C7F, 1, [0x23F]), (0x2C80, 0x2CE2, 2, [0x2C81]),
     (0x2CEB, 0x2CED, 2, [0x2CEC]), (0x2CF2, 0x2CF2, 1, [0x2CF3]), (0xA640, 0xA66C, 2, [0xA641]),
     (0xA680, 0xA69A, 2, [0xA681]), (0xA722, 0xA72E, 2, [0xA723]), (0xA732, 0xA76E, 2, [0xA733]),
     (0xA779, 0xA77B, 2, [0xA77A]), (0xA77D, 0xA77D, 1, [0x1D79]), (0xA77E, 0xA786, 2, [0xA77F]),
     (0xA78B, 0xA78B, 1, [0xA78C]), (0xA78D, 0xA78D, 1, [0x265]), (0xA790, 0xA792, 2, [0xA791]),
     (0xA796, 0xA7A8, 2, [0xA797]), (0xA7AA, 0xA7AA, 1, [0x266]), (0xA7AB, 0xA7AB, 1, [0x25C]),
     (0xA7AC, 0xA7AC, 1, [0x261]), (0xA7AD, 0xA7AD, 1, [0x26C]), (0xA7AE, 0xA7AE, 1, [0x26A]),
     (0xA7B0, 0xA7B0, 1, [0x29E]), (0xA7B1, 0xA7B1, 1, [0x287]), (0xA7B2, 0xA7B2, 1, [0x29D]),
     (0xA7B3, 0xA7B3, 1, [0xAB53]), (0xA7B4, 0xA7C2, 2, [0xA7B5]), (0xA7C4, 0xA7C4, 1, [0xA794]),
     (0xA7C5, 0xA7C5, 1, [0x282]), (0xA7C6, 0xA7C6, 1, [0x1D8E]), (0xA7C7, 0xA7C9, 2, [0xA7C8]),
     (0xA7D0, 0xA7D0, 1, [0xA7D1]), (0xA7D6, 0xA7D8, 2, [0xA7D7]), (0xA7F5, 0xA7F5, 1, [0xA7F6]),
     (0xFF21, 0xFF3A, 1, [0xFF41]), (0x10400, 0x10427, 1, [0x10428]), (0x104B0, 0x104D3, 1, [0x104D8]),
     (0x10570, 0x1057A, 1, [0x10597]), (0x1057C, 0x1058A, 1, [0x105A3]), (0x1058C, 0x10592, 1, [0x105B3]),
     (0x10594, 0x10595, 1, [0x105BB]), (0x10C80, 0x10CB2, 1, [0x10CC0]), (0x118A0, 0x118BF, 1, [0x118C0]),
     (0x16E40, 0x16E5F, 1, [0x16E60]), (0x1E900, 0x1E921, 1, [0x1E922])]"

text \<open>
  The code points with the property Case_Ignorable, and the remaining code points with the
  property Cased, as ranges.
\<close>

definition caseIgnorableRanges :: "(nat \<times> nat) list" where
  "caseIgnorableRanges = [
     (0x27, 0x27), (0x2E, 0x2E), (0x3A, 0x3A), (0x5E, 0x5E), (0x60, 0x60),
     (0xA8, 0xA8), (0xAD, 0xAD), (0xAF, 0xAF), (0xB4, 0xB4), (0xB7, 0xB8),
     (0x2B0, 0x36F), (0x374, 0x375), (0x37A, 0x37A), (0x384, 0x385), (0x387, 0x387),
     (0x483, 0x489), (0x559, 0x559), (0x55F, 0x55F), (0x591, 0x5BD), (0x5BF, 0x5BF),
     (0x5C1, 0x5C2), (0x5C4, 0x5C5), (0x5C7, 0x5C7), (0x5F4, 0x5F4), (0x600, 0x605),
     (0x610, 0x61A), (0x61C, 0x61C), (0x640, 0x640), (0x64B, 0x65F), (0x670, 0x670),
     (0x6D6, 0x6DD), (0x6DF, 0x6E8), (0x6EA, 0x6ED), (0x70F, 0x70F), (0x711, 0x711),
     (0x730, 0x74A), (0x7A6, 0x7B0), (0x7EB, 0x7F5), (0x7FA, 0x7FA), (0x7FD, 0x7FD),
     (0x816, 0x82D), (0x859, 0x85B), (0x888, 0x888), (0x890, 0x891), (0x898, 0x89F),
     (0x8C9, 0x902), (0x93A, 0x93A), (0x93C, 0x93C), (0x941, 0x948), (0x94D, 0x94D),
     (0x951, 0x957), (0x962, 0x963), (0x971, 0x971), (0x981, 0x981), (0x9BC, 0x9BC),
     (0x9C1, 0x9C4), (0x9CD, 0x9CD), (0x9E2, 0x9E3), (0x9FE, 0x9FE), (0xA01, 0xA02),
     (0xA3C, 0xA3C), (0xA41, 0xA42), (0xA47, 0xA48), (0xA4B, 0xA4D), (0xA51, 0xA51),
     (0xA70, 0xA71), (0xA75, 0xA75), (0xA81, 0xA82), (0xABC, 0xABC), (0xAC1, 0xAC5),
     (0xAC7, 0xAC8), (0xACD, 0xACD), (0xAE2, 0xAE3), (0xAFA, 0xAFF), (0xB01, 0xB01),
     (0xB3C, 0xB3C), (0xB3F, 0xB3F), (0xB41, 0xB44), (0xB4D, 0xB4D), (0xB55, 0xB56),
     (0xB62, 0xB63), (0xB82, 0xB82), (0xBC0, 0xBC0), (0xBCD, 0xBCD), (0xC00, 0xC00),
     (0xC04, 0xC04), (0xC3C, 0xC3C), (0xC3E, 0xC40), (0xC46, 0xC48), (0xC4A, 0xC4D),
     (0xC55, 0xC56), (0xC62, 0xC63), (0xC81, 0xC81), (0xCBC, 0xCBC), (0xCBF, 0xCBF),
     (0xCC6, 0xCC6), (0xCCC, 0xCCD), (0xCE2, 0xCE3), (0xD00, 0xD01), (0xD3B, 0xD3C),
     (0xD41, 0xD44), (0xD4D, 0xD4D), (0xD62, 0xD63), (0xD81, 0xD81), (0xDCA, 0xDCA),
     (0xDD2, 0xDD4), (0xDD6, 0xDD6), (0xE31, 0xE31), (0xE34, 0xE3A), (0xE46, 0xE4E),
     (0xEB1, 0xEB1), (0xEB4, 0xEBC), (0xEC6, 0xEC6), (0xEC8, 0xECD), (0xF18, 0xF19),
     (0xF35, 0xF35), (0xF37, 0xF37), (0xF39, 0xF39), (0xF71, 0xF7E), (0xF80, 0xF84),
     (0xF86, 0xF87), (0xF8D, 0xF97), (0xF99, 0xFBC), (0xFC6, 0xFC6), (0x102D, 0x1030),
     (0x1032, 0x1037), (0x1039, 0x103A), (0x103D, 0x103E), (0x1058, 0x1059), (0x105E, 0x1060),
     (0x1071, 0x1074), (0x1082, 0x1082), (0x1085, 0x1086), (0x108D, 0x108D), (0x109D, 0x109D),
     (0x10FC, 0x10FC), (0x135D, 0x135F), (0x1712, 0x1714), (0x1732, 0x1733), (0x1752, 0x1753),
     (0x1772, 0x1773), (0x17B4, 0x17B5), (0x17B7, 0x17BD), (0x17C6, 0x17C6), (0x17C9, 0x17D3),
     (0x17D7, 0x17D7), (0x17DD, 0x17DD), (0x180B, 0x180F), (0x1843, 0x1843), (0x1885, 0x1886),
     (0x18A9, 0x18A9), (0x1920, 0x1922), (0x1927, 0x1928), (0x1932, 0x1932), (0x1939, 0x193B),
     (0x1A17, 0x1A18), (0x1A1B, 0x1A1B), (0x1A56, 0x1A56), (0x1A58, 0x1A5E), (0x1A60, 0x1A60),
     (0x1A62, 0x1A62), (0x1A65, 0x1A6C), (0x1A73, 0x1A7C), (0x1A7F, 0x1A7F), (0x1AA7, 0x1AA7),
     (0x1AB0, 0x1ACE), (0x1B00, 0x1B03), (0x1B34, 0x1B34), (0x1B36, 0x1B3A), (0x1B3C, 0x1B3C),
     (0x1B42, 0x1B42), (0x1B6B, 0x1B73), (0x1B80, 0x1B81), (0x1BA2, 0x1BA5), (0x1BA8, 0x1BA9),
     (0x1BAB, 0x1BAD), (0x1BE6, 0x1BE6), (0x1BE8, 0x1BE9), (0x1BED, 0x1BED), (0x1BEF, 0x1BF1),
     (0x1C2C, 0x1C33), (0x1C36, 0x1C37), (0x1C78, 0x1C7D), (0x1CD0, 0x1CD2), (0x1CD4, 0x1CE0),
     (0x1CE2, 0x1CE8), (0x1CED, 0x1CED), (0x1CF4, 0x1CF4), (0x1CF8, 0x1CF9), (0x1D2C, 0x1D6A),
     (0x1D78, 0x1D78), (0x1D9B, 0x1DFF), (0x1FBD, 0x1FBD), (0x1FBF, 0x1FC1), (0x1FCD, 0x1FCF),
     (0x1FDD, 0x1FDF), (0x1FED, 0x1FEF), (0x1FFD, 0x1FFE), (0x200B, 0x200F), (0x2018, 0x2019),
     (0x2024, 0x2024), (0x2027, 0x2027), (0x202A, 0x202E), (0x2060, 0x2064), (0x2066, 0x206F),
     (0x2071, 0x2071), (0x207F, 0x207F), (0x2090, 0x209C), (0x20D0, 0x20F0), (0x2C7C, 0x2C7D),
     (0x2CEF, 0x2CF1), (0x2D6F, 0x2D6F), (0x2D7F, 0x2D7F), (0x2DE0, 0x2DFF), (0x2E2F, 0x2E2F),
     (0x3005, 0x3005), (0x302A, 0x302D), (0x3031, 0x3035), (0x303B, 0x303B), (0x3099, 0x309E),
     (0x30FC, 0x30FE), (0xA015, 0xA015), (0xA4F8, 0xA4FD), (0xA60C, 0xA60C), (0xA66F, 0xA672),
     (0xA674, 0xA67D), (0xA67F, 0xA67F), (0xA69C, 0xA69F), (0xA6F0, 0xA6F1), (0xA700, 0xA721),
     (0xA770, 0xA770), (0xA788, 0xA78A), (0xA7F2, 0xA7F4), (0xA7F8, 0xA7F9), (0xA802, 0xA802),
     (0xA806, 0xA806), (0xA80B, 0xA80B), (0xA825, 0xA826), (0xA82C, 0xA82C), (0xA8C4, 0xA8C5),
     (0xA8E0, 0xA8F1), (0xA8FF, 0xA8FF), (0xA926, 0xA92D), (0xA947, 0xA951), (0xA980, 0xA982),
     (0xA9B3, 0xA9B3), (0xA9B6, 0xA9B9), (0xA9BC, 0xA9BD), (0xA9CF, 0xA9CF), (0xA9E5, 0xA9E6),
     (0xAA29, 0xAA2E), (0xAA31, 0xAA32), (0xAA35, 0xAA36), (0xAA43, 0xAA43), (0xAA4C, 0xAA4C),
     (0xAA70, 0xAA70), (0xAA7C, 0xAA7C), (0xAAB0, 0xAAB0), (0xAAB2, 0xAAB4), (0xAAB7, 0xAAB8),
     (0xAABE, 0xAABF), (0xAAC1, 0xAAC1), (0xAADD, 0xAADD), (0xAAEC, 0xAAED), (0xAAF3, 0xAAF4),
     (0xAAF6, 0xAAF6), (0xAB5B, 0xAB5F), (0xAB69, 0xAB6B), (0xABE5, 0xABE5), (0xABE8, 0xABE8),
     (0xABED, 0xABED), (0xFB1E, 0xFB1E), (0xFBB2, 0xFBC2), (0xFE00, 0xFE0F), (0xFE13, 0xFE13),
     (0xFE20, 0xFE2F), (0xFE52, 0xFE52), (0xFE55, 0xFE55), (0xFEFF, 0xFEFF), (0xFF07, 0xFF07),
     (0xFF0E, 0xFF0E), (0xFF1A, 0xFF1A), (0xFF3E, 0xFF3E), (0xFF40, 0xFF40), (0xFF70, 0xFF70),
     (0xFF9E, 0xFF9F), (0xFFE3, 0xFFE3), (0xFFF9, 0xFFFB), (0x101FD, 0x101FD), (0x102E0, 0x102E0),
     (0x10376, 0x1037A), (0x10780, 0x10785), (0x10787, 0x107B0), (0x107B2, 0x107BA), (0x10A01, 0x10A03),
     (0x10A05, 0x10A06), (0x10A0C, 0x10A0F), (0x10A38, 0x10A3A), (0x10A3F, 0x10A3F), (0x10AE5, 0x10AE6),
     (0x10D24, 0x10D27), (0x10EAB, 0x10EAC), (0x10F46, 0x10F50), (0x10F82, 0x10F85), (0x11001, 0x11001),
     (0x11038, 0x11046), (0x11070, 0x11070), (0x11073, 0x11074), (0x1107F, 0x11081), (0x110B3, 0x110B6),
     (0x110B9, 0x110BA), (0x110BD, 0x110BD), (0x110C2, 0x110C2), (0x110CD, 0x110CD), (0x11100, 0x11102),
     (0x11127, 0x1112B), (0x1112D, 0x11134), (0x11173, 0x11173), (0x11180, 0x11181), (0x111B6, 0x111BE),
     (0x111C9, 0x111CC), (0x111CF, 0x111CF), (0x1122F, 0x11231), (0x11234, 0x11234), (0x11236, 0x11237),
     (0x1123E, 0x1123E), (0x112DF, 0x112DF), (0x112E3, 0x112EA), (0x11300, 0x11301), (0x1133B, 0x1133C),
     (0x11340, 0x11340), (0x11366, 0x1136C), (0x11370, 0x11374), (0x11438, 0x1143F), (0x11442, 0x11444),
     (0x11446, 0x11446), (0x1145E, 0x1145E), (0x114B3, 0x114B8), (0x114BA, 0x114BA), (0x114BF, 0x114C0),
     (0x114C2, 0x114C3), (0x115B2, 0x115B5), (0x115BC, 0x115BD), (0x115BF, 0x115C0), (0x115DC, 0x115DD),
     (0x11633, 0x1163A), (0x1163D, 0x1163D), (0x1163F, 0x11640), (0x116AB, 0x116AB), (0x116AD, 0x116AD),
     (0x116B0, 0x116B5), (0x116B7, 0x116B7), (0x1171D, 0x1171F), (0x11722, 0x11725), (0x11727, 0x1172B),
     (0x1182F, 0x11837), (0x11839, 0x1183A), (0x1193B, 0x1193C), (0x1193E, 0x1193E), (0x11943, 0x11943),
     (0x119D4, 0x119D7), (0x119DA, 0x119DB), (0x119E0, 0x119E0), (0x11A01, 0x11A0A), (0x11A33, 0x11A38),
     (0x11A3B, 0x11A3E), (0x11A47, 0x11A47), (0x11A51, 0x11A56), (0x11A59, 0x11A5B), (0x11A8A, 0x11A96),
     (0x11A98, 0x11A99), (0x11C30, 0x11C36), (0x11C38, 0x11C3D), (0x11C3F, 0x11C3F), (0x11C92, 0x11CA7),
     (0x11CAA, 0x11CB0), (0x11CB2, 0x11CB3), (0x11CB5, 0x11CB6), (0x11D31, 0x11D36), (0x11D3A, 0x11D3A),
     (0x11D3C, 0x11D3D), (0x11D3F, 0x11D45), (0x11D47, 0x11D47), (0x11D90, 0x11D91), (0x11D95, 0x11D95),
     (0x11D97, 0x11D97), (0x11EF3, 0x11EF4), (0x13430, 0x13438), (0x16AF0, 0x16AF4), (0x16B30, 0x16B36),
     (0x16B40, 0x16B43), (0x16F4F, 0x16F4F), (0x16F8F, 0x16F9F), (0x16FE0, 0x16FE1), (0x16FE3, 0x16FE4),
     (0x1AFF0, 0x1AFF3), (0x1AFF5, 0x1AFFB), (0x1AFFD, 0x1AFFE), (0x1BC9D, 0x1BC9E), (0x1BCA0, 0x1BCA3),
     (0x1CF00, 0x1CF2D), (0x1CF30, 0x1CF46), (0x1D167, 0x1D169), (0x1D173, 0x1D182), (0x1D185, 0x1D18B),
     (0x1D1AA, 0x1D1AD), (0x1D242, 0x1D244), (0x1DA00, 0x1DA36), (0x1DA3B, 0x1DA6C), (0x1DA75, 0x1DA75),
     (0x1DA84, 0x1DA84), (0x1DA9B, 0x1DA9F), (0x1DAA1, 0x1DAAF), (0x1E000, 0x1E006), (0x1E008, 0x1E018),
     (0x1E01B, 0x1E021), (0x1E023, 0x1E024), (0x1E026, 0x1E02A), (0x1E130, 0x1E13D), (0x1E2AE, 0x1E2AE),
     (0x1E2EC, 0x1E2EF), (0x1E8D0, 0x1E8D6), (0x1E944, 0x1E94B), (0x1F3FB, 0x1F3FF), (0xE0001, 0xE0001),
     (0xE0020, 0xE007F), (0xE0100, 0xE01EF)]"

definition casedRanges :: "(nat \<times> nat) list" where
  "casedRanges = [
     (0x41, 0x5A), (0x61, 0x7A), (0xAA, 0xAA), (0xB5, 0xB5), (0xBA, 0xBA),
     (0xC0, 0xD6), (0xD8, 0xF6), (0xF8, 0x1BA), (0x1BC, 0x1BF), (0x1C4, 0x293),
     (0x295, 0x2AF), (0x370, 0x373), (0x376, 0x377), (0x37B, 0x37D), (0x37F, 0x37F),
     (0x386, 0x386), (0x388, 0x38A), (0x38C, 0x38C), (0x38E, 0x3A1), (0x3A3, 0x3F5),
     (0x3F7, 0x481), (0x48A, 0x52F), (0x531, 0x556), (0x560, 0x588), (0x10A0, 0x10C5),
     (0x10C7, 0x10C7), (0x10CD, 0x10CD), (0x10D0, 0x10FA), (0x10FD, 0x10FF), (0x13A0, 0x13F5),
     (0x13F8, 0x13FD), (0x1C80, 0x1C88), (0x1C90, 0x1CBA), (0x1CBD, 0x1CBF), (0x1D00, 0x1D2B),
     (0x1D6B, 0x1D77), (0x1D79, 0x1D9A), (0x1E00, 0x1F15), (0x1F18, 0x1F1D), (0x1F20, 0x1F45),
     (0x1F48, 0x1F4D), (0x1F50, 0x1F57), (0x1F59, 0x1F59), (0x1F5B, 0x1F5B), (0x1F5D, 0x1F5D),
     (0x1F5F, 0x1F7D), (0x1F80, 0x1FB4), (0x1FB6, 0x1FBC), (0x1FBE, 0x1FBE), (0x1FC2, 0x1FC4),
     (0x1FC6, 0x1FCC), (0x1FD0, 0x1FD3), (0x1FD6, 0x1FDB), (0x1FE0, 0x1FEC), (0x1FF2, 0x1FF4),
     (0x1FF6, 0x1FFC), (0x2102, 0x2102), (0x2107, 0x2107), (0x210A, 0x2113), (0x2115, 0x2115),
     (0x2119, 0x211D), (0x2124, 0x2124), (0x2126, 0x2126), (0x2128, 0x2128), (0x212A, 0x212D),
     (0x212F, 0x2134), (0x2139, 0x2139), (0x213C, 0x213F), (0x2145, 0x2149), (0x214E, 0x214E),
     (0x2160, 0x217F), (0x2183, 0x2184), (0x24B6, 0x24E9), (0x2C00, 0x2C7B), (0x2C7E, 0x2CE4),
     (0x2CEB, 0x2CEE), (0x2CF2, 0x2CF3), (0x2D00, 0x2D25), (0x2D27, 0x2D27), (0x2D2D, 0x2D2D),
     (0xA640, 0xA66D), (0xA680, 0xA69B), (0xA722, 0xA76F), (0xA771, 0xA787), (0xA78B, 0xA78E),
     (0xA790, 0xA7CA), (0xA7D0, 0xA7D1), (0xA7D3, 0xA7D3), (0xA7D5, 0xA7D9), (0xA7F5, 0xA7F6),
     (0xA7FA, 0xA7FA), (0xAB30, 0xAB5A), (0xAB60, 0xAB68), (0xAB70, 0xABBF), (0xFB00, 0xFB06),
     (0xFB13, 0xFB17), (0xFF21, 0xFF3A), (0xFF41, 0xFF5A), (0x10400, 0x1044F), (0x104B0, 0x104D3),
     (0x104D8, 0x104FB), (0x10570, 0x1057A), (0x1057C, 0x1058A), (0x1058C, 0x10592), (0x10594, 0x10595),
     (0x10597, 0x105A1), (0x105A3, 0x105B1), (0x105B3, 0x105B9), (0x105BB, 0x105BC), (0x10C80, 0x10CB2),
     (0x10CC0, 0x10CF2), (0x118A0, 0x118DF), (0x16E40, 0x16E7F), (0x1D400, 0x1D454), (0x1D456, 0x1D49C),
     (0x1D49E, 0x1D49F), (0x1D4A2, 0x1D4A2), (0x1D4A5, 0x1D4A6), (0x1D4A9, 0x1D4AC), (0x1D4AE, 0x1D4B9),
     (0x1D4BB, 0x1D4BB), (0x1D4BD, 0x1D4C3), (0x1D4C5, 0x1D505), (0x1D507, 0x1D50A), (0x1D50D, 0x1D514),
     (0x1D516, 0x1D51C), (0x1D51E, 0x1D539), (0x1D53B, 0x1D53E), (0x1D540, 0x1D544), (0x1D546, 0x1D546),
     (0x1D54A, 0x1D550), (0x1D552, 0x1D6A5), (0x1D6A8, 0x1D6C0), (0x1D6C2, 0x1D6DA), (0x1D6DC, 0x1D6FA),
     (0x1D6FC, 0x1D714), (0x1D716, 0x1D734), (0x1D736, 0x1D74E), (0x1D750, 0x1D76E), (0x1D770, 0x1D788),
     (0x1D78A, 0x1D7A8), (0x1D7AA, 0x1D7C2), (0x1D7C4, 0x1D7CB), (0x1DF00, 0x1DF09), (0x1DF0B, 0x1DF1E),
     (0x1E900, 0x1E943), (0x1F130, 0x1F149), (0x1F150, 0x1F169), (0x1F170, 0x1F189)]"

fun inRanges :: "(nat \<times> nat) list \<Rightarrow> nat \<Rightarrow> bool" where
  "inRanges [] c = False"
| "inRanges ((lo, hi) # rs) c = ((lo \<le> c \<and> c \<le> hi) \<or> inRanges rs c)"

definition isCaseIgnorable :: "nat \<Rightarrow> bool" where
  "isCaseIgnorable c = inRanges caseIgnorableRanges c"

definition isCased :: "nat \<Rightarrow> bool" where
  "isCased c = inRanges casedRanges c"

fun applyRules :: "caseRule list \<Rightarrow> nat \<Rightarrow> nat list" where
  "applyRules [] c = [c]"
| "applyRules ((lo, hi, step, targets) # rs) c =
     (if lo \<le> c \<and> c \<le> hi \<and> (c - lo) mod step = 0
      then map (\<lambda>t. t + (c - lo)) targets
      else applyRules rs c)"

definition lowerPoint :: "nat \<Rightarrow> nat list" where
  "lowerPoint c = applyRules lowerRules c"

text \<open>
  A capital sigma is final when a cased letter stands before it and none after it, code
  points that are Case_Ignorable being passed over on both sides; \<open>before\<close> holds the
  preceding code points, the nearest first.
\<close>

definition finalSigma :: "nat list \<Rightarrow> nat list \<Rightarrow> bool" where
  "finalSigma before after \<longleftrightarrow>
     (case dropWhile isCaseIgnorable before of [] \<Rightarrow> False | p # ps \<Rightarrow> isCased p) \<and>
     (case dropWhile isCaseIgnorable after of [] \<Rightarrow> True | n # ns \<Rightarrow> \<not> isCased n)"

definition lowerAt :: "nat list \<Rightarrow> nat \<Rightarrow> nat list \<Rightarrow> nat list" where
  "lowerAt before c after =
     (if c = 0x3A3 then [if finalSigma before after then 0x3C2 else 0x3C3] else lowerPoint c)"

fun lowerAll :: "nat list \<Rightarrow> nat list \<Rightarrow> nat list" where
  "lowerAll before [] = []"
| "lowerAll before (c # after) = lowerAt before c after @ lowerAll (c # before) after"

text \<open>
  The code points of a string: a high surrogate followed by a low surrogate is one code
  point, any other code unit is a code point by itself.
\<close>

definition isHighSurrogate :: "nat \<Rightarrow> bool" where
  "isHighSurrogate c \<longleftrightarrow> 0xD800 \<le> c \<and> c \<le> 0xDBFF"

definition isLowSurrogate :: "nat \<Rightarrow> bool" where
  "isLowSurrogate c \<longleftrightarrow> 0xDC00 \<le> c \<and> c \<le> 0xDFFF"

fun toCodePoints :: "jsstring \<Rightarrow> nat list" where
  "toCodePoints [] = []"
| "toCodePoints [c] = [c]"
| "toCodePoints (h # l # rest) =
     (if isHighSurrogate h \<and> isLowSurrogate l
      then (0x10000 + (h - 0xD800) * 0x400 + (l - 0xDC00)) # toCodePoints rest
      else h # toCodePoints (l # rest))"

fun utf16Encode :: "nat list \<Rightarrow> jsstring" where
  "utf16Encode [] = []"
| "utf16Encode (cp # cps) =
     (if cp < 0x10000 then [cp]
      else [0xD800 + (cp - 0x10000) div 0x400, 0xDC00 + (cp - 0x10000) mod 0x400])
     @ utf16Encode cps"

definition toLowerCase :: "jsstring \<Rightarrow> jsstring" where
  "toLowerCase s = utf16Encode (lowerAll [] (toCodePoints s))"

text \<open>
  A JavaScript string is a sequence of 16-bit code units. The code points of such a string
  are below \<open>0x110000\<close>, and no high surrogate among them is followed by a low surrogate,
  since the two would have been one code point.
\<close>

definition codeUnits :: "jsstring \<Rightarrow> bool" where
  "codeUnits s \<longleftrightarrow> (\<forall>c\<in>set s. c < 0x10000)"

fun pointSequence :: "nat list \<Rightarrow> bool" where
  "pointSequence [] = True"
| "pointSequence [c] = (c < 0x110000)"
| "pointSequence (a # b # rest) =
     (a < 0x110000 \<and> \<not> (isHighSurrogate a \<and> isLowSurrogate b) \<and> pointSequence (b # rest))"

fun startsWith :: "jsstring \<Rightarrow> jsstring \<Rightarrow> bool" where
  "startsWith s [] = True"
| "startsWith [] (p # ps) = False"
| "startsWith (c # cs) (p # ps) = (c = p \<and> startsWith cs ps)"

fun js_includes :: "jsstring \<Rightarrow> jsstring \<Rightarrow> bool" where
  "js_includes [] sub = (sub = [])"
| "js_includes (c # cs) sub = (startsWith (c # cs) sub \<or> js_includes cs sub)"

text \<open>
  \<open>s.split(sep)\<close> for a string separator: the fragments between the non-overlapping
  occurrences of \<open>sep\<close>, found from left to right; an empty separator splits into code
  units.
\<close>

fun splitOn :: "jsstring \<Rightarrow> jsstring \<Rightarrow> jsstring list" where
  "splitOn sep [] = [[]]"
| "splitOn sep (c # cs) =
     (if startsWith (c # cs) sep
      then [] # splitOn sep (drop (length sep - 1) cs)
      else (case splitOn sep cs of f # fs \<Rightarrow> (c # f) # fs | [] \<Rightarrow> [[c]]))"

definition js_split :: "jsstring \<Rightarrow> jsstring \<Rightarrow> jsstring list" where
  "js_split s sep = (if sep = [] then map (\<lambda>c. [c]) s else splitOn sep s)"

fun js_join :: "jsstring \<Rightarrow> jsstring list \<Rightarrow> jsstring" where
  "js_join sep [] = []"
| "js_join sep [x] = x"
| "js_join sep (x # y # ys) = x @ sep @ js_join sep (y # ys)"

definition CRLF :: jsstring where
  "CRLF = [0x0D, 0x0A]"

definition CRLFCRLF :: jsstring where
  "CRLFCRLF = [0x0D, 0x0A, 0x0D, 0x0A]"

section \<open>Regular expressions of the source\<close>

text \<open>
  \<open>s.replace(re, ...)\<close> with a global regular expression: the matcher \<open>m\<close> tells, for the
  text that starts at the current position, how many code units the expression matches
  there and what replaces them. Every expression of the source matches at least one code
  unit, so the scan resumes right after the match.
\<close>

fun replaceAll :: "(jsstring \<Rightarrow> (nat \<times> jsstring) option) \<Rightarrow> jsstring \<Rightarrow> jsstring" where
  "replaceAll m [] = []"
| "replaceAll m (c # cs) =
     (case m (c # cs) of
        Some (n, r) \<Rightarrow> r @ replaceAll m (drop (n - 1) cs)
      | None \<Rightarrow> c # replaceAll m cs)"

text \<open>\<open>s.match(re)\<close> without the global flag: the leftmost position where \<open>re\<close> matches.\<close>

fun firstMatch :: "(jsstring \<Rightarrow> 'a option) \<Rightarrow> jsstring \<Rightarrow> 'a option" where
  "firstMatch m [] = m []"
| "firstMatch m (c # cs) =
     (case m (c # cs) of Some r \<Rightarrow> Some r | None \<Rightarrow> firstMatch m cs)"

text \<open>\<open>/=\r\n/g\<close>, replaced by the empty string.\<close>

definition softBreak :: "jsstring \<Rightarrow> (nat \<times> jsstring) option" where
  "softBreak s = (if startsWith s [0x3D, 0x0D, 0x0A] then Some (3, []) else None)"

text \<open>
  \<open>/=([0-9A-F]{2})/g\<close>, replaced by \<open>String.fromCharCode(parseInt(hex, 16))\<close>.
\<close>

definition isUpperHex :: "nat \<Rightarrow> bool" where
  "isUpperHex c \<longleftrightarrow> (0x30 \<le> c \<and> c \<le> 0x39) \<or> (0x41 \<le> c \<and> c \<le> 0x46)"

definition hexValue :: "nat \<Rightarrow> nat" where
  "hexValue c = (if 0x30 \<le> c \<and> c \<le> 0x39 then c - 0x30
                 else if 0x41 \<le> c \<and> c \<le> 0x46 then c - 0x41 + 10
                 else c - 0x61 + 10)"

fun hexEscape :: "jsstring \<Rightarrow> (nat \<times> jsstring) option" where
  "hexEscape (e # a # b # rest) =
     (if e = 0x3D \<and> isUpperHex a \<and> isUpperHex b
      then Some (3, [hexValue a * 16 + hexValue b]) else None)"
| "hexEscape s = None"

text \<open>\<open>/<[^>]*>/g\<close>, replaced by a space.\<close>

fun htmlTag :: "jsstring \<Rightarrow> (nat \<times> jsstring) option" where
  "htmlTag [] = None"
| "htmlTag (c # cs) =
     (let inner = takeWhile (\<lambda>x. x \<noteq> 0x3E) cs
      in if c = 0x3C \<and> length inner < length cs
         then Some (length inner + 2, [0x20]) else None)"

text \<open>\<open>/\s+/g\<close>, replaced by a space.\<close>

definition whiteRun :: "jsstring \<Rightarrow> (nat \<times> jsstring) option" where
  "whiteRun s =
     (let run = takeWhile isWhiteSpace s
      in if run = [] then None else Some (length run, [0x20]))"

text \<open>\<open>/^([^;]+)/\<close>: the capture group.\<close>

definition typeMatch :: "jsstring \<Rightarrow> jsstring option" where
  "typeMatch s =
     (let m = takeWhile (\<lambda>x. x \<noteq> 0x3B) s in if m = [] then None else Some m)"

text \<open>
  \<open>/boundary="?([^";\s]+)"?/i\<close>: the capture group of the leftmost match. Under the
  \<open>i\<close> flag only the two ASCII cases of a letter of \<open>boundary\<close> match it.
\<close>

definition boundaryAt :: "jsstring \<Rightarrow> jsstring option" where
  "boundaryAt s =
     (if length s \<ge> 9 \<and> map lowerUnit (take 9 s) = js ''boundary=''
      then (let rest = drop 9 s;
                rest' = (case rest of c # cs \<Rightarrow> if c = 0x22 then cs else rest | [] \<Rightarrow> rest);
                b = takeWhile (\<lambda>x. x \<noteq> 0x22 \<and> x \<noteq> 0x3B \<and> \<not> isWhiteSpace x) rest'
            in if b = [] then None else Some b)
      else None)"

definition boundaryMatch :: "jsstring \<Rightarrow> jsstring option" where
  "boundaryMatch s = firstMatch boundaryAt s"

text \<open>
  \<open>/^([^:]+):\s*(.*)/\<close>: the two capture groups. The dot does not match a line
  terminator.
\<close>

definition headerMatch :: "jsstring \<Rightarrow> (jsstring \<times> jsstring) option" where
  "headerMatch line =
     (let name = takeWhile (\<lambda>x. x \<noteq> 0x3A) line
      in if name = [] \<or> length name = length line then None
         else Some (name,
                takeWhile (\<lambda>x. \<not> isLineTerminator x)
                  (dropWhile isWhiteSpace (drop (length name + 1) line))))"

text \<open>\<open>/^\s/.test(line)\<close>.\<close>

definition leadingSpace :: "jsstring \<Rightarrow> bool" where
  "leadingSpace line = (case line of [] \<Rightarrow> False | c # cs \<Rightarrow> isWhiteSpace c)"

text \<open>\<open>html.replace(/<[^>]*>/g, " ").replace(/\s+/g, " ").trim()\<close>\<close>

definition stripHtml :: "jsstring \<Rightarrow> jsstring" where
  "stripHtml s = trim (replaceAll whiteRun (replaceAll htmlTag s))"

section \<open>Platform decoders: \<open>atob\<close> and \<open>TextDecoder\<close>\<close>

datatype exception = InvalidCharacterError | TypeError

datatype warning = Failed_to_decode_base64 exception | Failed_to_decode_quoted_printable exception

text \<open>
  \<open>atob\<close> is the forgiving base64 decoder of the HTML standard: ASCII whitespace is
  removed; when the length is then a multiple of four, one or two trailing \<open>=\<close> are
  removed; a length of one modulo four, or a code unit outside the base64 alphabet, throws;
  otherwise each group of four sextets gives three bytes, and two or three remaining
  sextets give one or two bytes, their spare low bits discarded. The result is a string
  with one code unit per byte.
\<close>

definition isAsciiWhitespace :: "nat \<Rightarrow> bool" where
  "isAsciiWhitespace c \<longleftrightarrow> c = 0x09 \<or> c = 0x0A \<or> c = 0x0C \<or> c = 0x0D \<or> c = 0x20"

definition isBase64Unit :: "nat \<Rightarrow> bool" where
  "isBase64Unit c \<longleftrightarrow>
     (0x41 \<le> c \<and> c \<le> 0x5A) \<or> (0x61 \<le> c \<and> c \<le> 0x7A) \<or> (0x30 \<le> c \<and> c \<le> 0x39) \<or>
     c = 0x2B \<or> c = 0x2F"

definition base64Value :: "nat \<Rightarrow> nat" where
  "base64Value c =
     (if 0x41 \<le> c \<and> c \<le> 0x5A then c - 0x41
      else if 0x61 \<le> c \<and> c \<le> 0x7A then c - 0x61 + 26
      else if 0x30 \<le> c \<and> c \<le> 0x39 then c - 0x30 + 52
      else if c = 0x2B then 62 else 63)"

definition stripPadding :: "jsstring \<Rightarrow> jsstring" where
  "stripPadding d =
     (if length d mod 4 = 0
      then (case rev d of
              p # q # r \<Rightarrow> if p = 0x3D then (if q = 0x3D then rev r else rev (q # r)) else d
            | _ \<Rightarrow> d)
      else d)"

fun sextetsToBytes :: "nat list \<Rightarrow> nat list" where
  "sextetsToBytes (a # b # c # d # rest) =
     (a * 4 + b div 16) # ((b mod 16) * 16 + c div 4) # ((c mod 4) * 64 + d) # sextetsToBytes rest"
| "sextetsToBytes [a, b, c] = [a * 4 + b div 16, (b mod 16) * 16 + c div 4]"
| "sextetsToBytes [a, b] = [a * 4 + b div 16]"
| "sextetsToBytes rest = []"

definition atob :: "jsstring \<Rightarrow> exception + jsstring" where
  "atob str =
     (let d = stripPadding (filter (\<lambda>c. \<not> isAsciiWhitespace c) str)
      in if length d mod 4 = 1 then Inl InvalidCharacterError
         else if \<not> list_all isBase64Unit d then Inl InvalidCharacterError
         else Inr (sextetsToBytes (map base64Value d)))"

text \<open>
  \<open>new TextDecoder().decode(bytes)\<close>: the UTF-8 decoder of the Encoding standard, not
  fatal (an ill-formed sequence gives U+FFFD and the offending byte is read again), with
  the byte order mark removed (\<open>ignoreBOM\<close> is false). The arguments of \<open>utf8Decode\<close>
  are the decoder's state: code point, bytes needed, bytes seen, lower and upper boundary.
\<close>

fun utf8Decode :: "nat \<Rightarrow> nat \<Rightarrow> nat \<Rightarrow> nat \<Rightarrow> nat \<Rightarrow> nat list \<Rightarrow> nat list" where
  "utf8Decode cp needed seen lower upper [] = (if needed \<noteq> 0 then [0xFFFD] else [])"
| "utf8Decode cp needed seen lower upper (b # bs) =
     (if needed = 0 then
        (if b \<le> 0x7F then b # utf8Decode 0 0 0 0x80 0xBF bs
         else if 0xC2 \<le> b \<and> b \<le> 0xDF then utf8Decode (b mod 0x20) 1 0 0x80 0xBF bs
         else if 0xE0 \<le> b \<and> b \<le> 0xEF then
           utf8Decode (b mod 0x10) 2 0 (if b = 0xE0 then 0xA0 else 0x80)
             (if b = 0xED then 0x9F else 0xBF) bs
         else if 0xF0 \<le> b \<and> b \<le> 0xF4 then
           utf8Decode (b mod 8) 3 0 (if b = 0xF0 then 0x90 else 0x80)
             (if b = 0xF4 then 0x8F else 0xBF) bs
         else 0xFFFD # utf8Decode 0 0 0 0x80 0xBF bs)
      else if b < lower \<or> upper < b then 0xFFFD # utf8Decode 0 0 0 0x80 0xBF (b # bs)
      else (let cp' = cp * 64 + b mod 64
            in if seen + 1 \<noteq> needed then utf8Decode cp' needed (seen + 1) 0x80 0xBF bs
               else cp' # utf8Decode 0 0 0 0x80 0xBF bs))"

definition stripBOM :: "nat list \<Rightarrow> nat list" where
  "stripBOM cps = (case cps of [] \<Rightarrow> [] | c # rest \<Rightarrow> if c = 0xFEFF then rest else cps)"

definition textDecode :: "nat list \<Rightarrow> jsstring" where
  "textDecode bytes = utf16Encode (stripBOM (utf8Decode 0 0 0 0x80 0xBF bytes))"

section \<open>The transfer decoders\<close>

definition decodeUint8Array :: "nat list \<Rightarrow> jsstring" where
  "decodeUint8Array data = textDecode data"

text \<open>
  The decoders return the decoded string together with the warnings they log; the
  \<open>catch\<close> branch of \<open>decodeBase64\<close> is the \<open>Inl\<close> case of \<open>atob\<close>. Nothing in the
  \<open>try\<close> block of \<open>decodeQuotedPrintable\<close> can throw.
\<close>

definition decodeBase64 :: "jsstring \<Rightarrow> jsstring \<times> warning list" where
  "decodeBase64 str =
     (case atob str of
        Inr bin \<Rightarrow> (textDecode bin, [])
      | Inl error \<Rightarrow> (str, [Failed_to_decode_base64 error]))"

definition decodeQuotedPrintable :: "jsstring \<Rightarrow> jsstring \<times> warning list" where
  "decodeQuotedPrintable str = (replaceAll hexEscape (replaceAll softBreak str), [])"

definition decodeBody :: "jsstring \<Rightarrow> jsstring option \<Rightarrow> jsstring \<times> warning list" where
  "decodeBody body encoding =
     (case encoding of
        None \<Rightarrow> (body, [])
      | Some e \<Rightarrow>
          if e = [] then (body, [])
          else if toLowerCase e = js ''base64'' then decodeBase64 body
          else if toLowerCase e = js ''quoted-printable'' then decodeQuotedPrintable body
          else (body, []))"

section \<open>\<open>getContentInfo\<close>\<close>

text \<open>
  A header of the structured message is a string or an array of strings. An array is
  truthy even when empty; the first element of an empty array is \<open>undefined\<close>, and
  calling \<open>match\<close> or \<open>trim\<close> on it throws a \<open>TypeError\<close>. Header names are the keys of
  a map; the object's inherited property names are not modelled.
\<close>

datatype headerValue = Single jsstring | Multiple "jsstring list"

record contentInfo =
  contentType :: jsstring
  encoding :: jsstring
  boundary :: "jsstring option"

fun truthy :: "headerValue \<Rightarrow> bool" where
  "truthy (Single s) = (s \<noteq> [])"
| "truthy (Multiple xs) = True"

fun firstValue :: "headerValue \<Rightarrow> exception + jsstring" where
  "firstValue (Single s) = Inr s"
| "firstValue (Multiple []) = Inl TypeError"
| "firstValue (Multiple (x # xs)) = Inr x"

definition headerString :: "(jsstring \<rightharpoonup> headerValue) \<Rightarrow> jsstring \<Rightarrow> exception + jsstring option" where
  "headerString headers name =
     (case headers name of
        None \<Rightarrow> Inr None
      | Some h \<Rightarrow>
          if truthy h
          then (case firstValue h of Inl e \<Rightarrow> Inl e | Inr s \<Rightarrow> Inr (Some s))
          else Inr None)"

definition getContentInfo :: "(jsstring \<rightharpoonup> headerValue) \<Rightarrow> exception + contentInfo" where
  "getContentInfo headers =
     (case headerString headers (js ''Content-Type'') of
        Inl e \<Rightarrow> Inl e
      | Inr ct \<Rightarrow>
          (case headerString headers (js ''Content-Transfer-Encoding'') of
             Inl e \<Rightarrow> Inl e
           | Inr cte \<Rightarrow>
               Inr \<lparr> contentType =
                       (case ct of
                          None \<Rightarrow> js ''text/plain''
                        | Some ctHeader \<Rightarrow>
                            (case typeMatch ctHeader of
                               None \<Rightarrow> js ''text/plain''
                             | Some m \<Rightarrow> toLowerCase (trim m))),
                     encoding =
                       (case cte of
                          None \<Rightarrow> js ''7bit''
                        | Some cteHeader \<Rightarrow> toLowerCase (trim cteHeader)),
                     boundary =
                       (case ct of
                          None \<Rightarrow> None
                        | Some ctHeader \<Rightarrow> boundaryMatch ctHeader) \<rparr>))"

section \<open>\<open>parseMultipartMessage\<close>\<close>

record accumulators =
  textContent :: jsstring
  htmlContent :: jsstring
  warnings :: "warning list"

text \<open>\<open>headers[name] || "default"\<close>: an absent or empty value gives the default.\<close>

definition orDefault :: "jsstring option \<Rightarrow> jsstring \<Rightarrow> jsstring" where
  "orDefault v d = (case v of None \<Rightarrow> d | Some s \<Rightarrow> if s = [] then d else s)"

text \<open>The inner loop over the header lines of a part.\<close>

fun parseSimpleLines :: "jsstring list \<Rightarrow> (jsstring \<rightharpoonup> jsstring) \<Rightarrow> (jsstring \<rightharpoonup> jsstring)" where
  "parseSimpleLines [] headers = headers"
| "parseSimpleLines (line # lines) headers =
     (if trim line = [] then parseSimpleLines lines headers
      else (case headerMatch line of
              Some (name, v) \<Rightarrow> parseSimpleLines lines (headers(name \<mapsto> v))
            | None \<Rightarrow> parseSimpleLines lines headers))"

text \<open>The body of the outer loop after its two \<open>continue\<close> statements.\<close>

definition storePart :: "jsstring \<Rightarrow> jsstring list \<Rightarrow> accumulators \<Rightarrow> accumulators" where
  "storePart headersText contentParts acc =
     (let content = js_join CRLFCRLF contentParts;
          headers = parseSimpleLines (js_split headersText CRLF) Map.empty;
          contentType = orDefault (headers (js ''Content-Type'')) (js ''text/plain'');
          encoding = orDefault (headers (js ''Content-Transfer-Encoding'')) (js ''7bit'');
          decoded = decodeBody content (Some encoding);
          acc' = acc\<lparr>warnings := warnings acc @ snd decoded\<rparr>
      in if js_includes contentType (js ''text/plain'') then acc'\<lparr>textContent := fst decoded\<rparr>
         else if js_includes contentType (js ''text/html'') then acc'\<lparr>htmlContent := fst decoded\<rparr>
         else acc')"

definition processPart :: "jsstring \<Rightarrow> accumulators \<Rightarrow> accumulators" where
  "processPart part acc =
     (if trim part = [] \<or> js_includes part (js ''--'') then acc
      else (case js_split part CRLFCRLF of
              [] \<Rightarrow> acc
            | headersText # contentParts \<Rightarrow>
                if contentParts = [] then acc
                else storePart headersText contentParts acc))"

fun processParts :: "jsstring list \<Rightarrow> accumulators \<Rightarrow> accumulators" where
  "processParts [] acc = acc"
| "processParts (part # parts) acc = processParts parts (processPart part acc)"

definition noReadableContent :: jsstring where
  "noReadableContent = js ''No readable content found in the message.''"

definition selectContent :: "accumulators \<Rightarrow> jsstring" where
  "selectContent acc =
     (if textContent acc \<noteq> [] then textContent acc
      else if htmlContent acc \<noteq> [] then stripHtml (htmlContent acc)
      else noReadableContent)"

definition multipartAccumulators :: "jsstring \<Rightarrow> jsstring \<Rightarrow> accumulators" where
  "multipartAccumulators body bnd =
     processParts (js_split body (js ''--'' @ bnd))
       \<lparr>textContent = [], htmlContent = [], warnings = []\<rparr>"

definition parseMultipartMessage :: "jsstring \<Rightarrow> jsstring \<Rightarrow> jsstring \<times> warning list" where
  "parseMultipartMessage body bnd =
     (let acc = multipartAccumulators body bnd in (selectContent acc, warnings acc))"

section \<open>\<open>main\<close>: the structured path and the raw path\<close>

text \<open>Truthiness of an optional string: \<open>undefined\<close> and the empty string are falsy.\<close>

definition present :: "jsstring option \<Rightarrow> bool" where
  "present v = (case v of None \<Rightarrow> False | Some s \<Rightarrow> s \<noteq> [])"

definition defaultInfo :: contentInfo where
  "defaultInfo = \<lparr>contentType = js ''text/plain'', encoding = js ''7bit'', boundary = None\<rparr>"

text \<open>
  The single-part branch of both paths: decode, then strip the tags when the content type
  was found to mention \<open>html\<close>.
\<close>

definition singlePart :: "bool \<Rightarrow> jsstring \<Rightarrow> jsstring \<Rightarrow> jsstring \<times> warning list" where
  "singlePart html enc bodyText =
     (let decodedBody = decodeBody bodyText (Some enc)
      in (if html then stripHtml (fst decodedBody) else fst decodedBody, snd decodedBody))"

text \<open>The branch for \<open>message.parts.TEXT\<close>, given the content info found before.\<close>

definition structuredBody :: "contentInfo \<Rightarrow> jsstring \<Rightarrow> jsstring \<times> warning list" where
  "structuredBody info rawBodyText =
     (if startsWith (contentType info) (js ''multipart/'') \<and> present (boundary info)
      then parseMultipartMessage rawBodyText (orDefault (boundary info) [])
      else singlePart (js_includes (contentType info) (js ''html'')) (encoding info) rawBodyText)"

definition structuredPath ::
    "(jsstring \<rightharpoonup> headerValue) \<Rightarrow> jsstring \<Rightarrow> exception + jsstring \<times> warning list" where
  "structuredPath hs rawBodyText =
     (case getContentInfo hs of
        Inl e \<Rightarrow> Inl e
      | Inr info \<Rightarrow> Inr (structuredBody info rawBodyText))"

text \<open>The header loop of the raw path, which joins continuation lines.\<close>

record headerState =
  collected :: "jsstring \<rightharpoonup> jsstring"
  currentHeader :: jsstring
  currentValue :: jsstring

definition saveHeader :: "headerState \<Rightarrow> headerState" where
  "saveHeader st =
     (if currentHeader st \<noteq> []
      then st\<lparr>collected := (collected st)(currentHeader st \<mapsto> currentValue st)\<rparr>
      else st)"

definition foldLine :: "jsstring \<Rightarrow> headerState \<Rightarrow> headerState" where
  "foldLine line st =
     (if leadingSpace line then st\<lparr>currentValue := currentValue st @ [0x20] @ trim line\<rparr>
      else (case headerMatch line of
              Some (name, v) \<Rightarrow> (saveHeader st)\<lparr>currentHeader := name, currentValue := v\<rparr>
            | None \<Rightarrow> saveHeader st))"

fun foldLines :: "jsstring list \<Rightarrow> headerState \<Rightarrow> headerState" where
  "foldLines [] st = st"
| "foldLines (line # lines) st = foldLines lines (foldLine line st)"

definition parseBlock :: "jsstring \<Rightarrow> (jsstring \<rightharpoonup> jsstring)" where
  "parseBlock headerText =
     collected (saveHeader (foldLines (js_split headerText CRLF)
       \<lparr>collected = Map.empty, currentHeader = [], currentValue = []\<rparr>))"

definition rawContentInfo :: "(jsstring \<rightharpoonup> jsstring) \<Rightarrow> contentInfo" where
  "rawContentInfo hs =
     (if present (hs (js ''Content-Type''))
      then \<lparr>contentType = orDefault (hs (js ''Content-Type'')) [],
            encoding = orDefault (hs (js ''Content-Transfer-Encoding'')) (js ''7bit''),
            boundary = boundaryMatch (orDefault (hs (js ''Content-Type'')) [])\<rparr>
      else defaultInfo)"

text \<open>The result \<open>None\<close> is the message "Could not extract body from raw message".\<close>

definition rawPath :: "jsstring \<Rightarrow> (jsstring \<times> warning list) option" where
  "rawPath rawText =
     (case js_split rawText CRLFCRLF of
        [] \<Rightarrow> None
      | headerText # rest \<Rightarrow>
          if rest = [] then None
          else (let info = rawContentInfo (parseBlock headerText);
                    bodyText = js_join CRLFCRLF rest
                in Some (if js_includes (contentType info) (js ''multipart/'') \<and>
                            present (boundary info)
                         then parseMultipartMessage bodyText (orDefault (boundary info) [])
                         else singlePart
                                (js_includes (toLowerCase (contentType info)) (js ''html''))
                                (encoding info) bodyText)))"

text \<open>
  What \<open>main\<close> prints under "MESSAGE CONTENT" for a fetched message; an exception ends in
  the \<open>catch\<close> of \<open>main\<close>.
\<close>

record message =
  headersOf :: "(jsstring \<rightharpoonup> headerValue) option"
  textPart :: "nat list option"
  rawOf :: "nat list option"

datatype shown =
  Content jsstring | Could_not_extract_body | No_message_body | Error exception

definition mainContent :: "message \<Rightarrow> shown \<times> warning list" where
  "mainContent m =
     (case (case headersOf m of None \<Rightarrow> Inr defaultInfo | Some hs \<Rightarrow> getContentInfo hs) of
        Inl e \<Rightarrow> (Error e, [])
      | Inr info \<Rightarrow>
          (case textPart m of
             Some data \<Rightarrow>
               (let r = structuredBody info (decodeUint8Array data) in (Content (fst r), snd r))
           | None \<Rightarrow>
               (case rawOf m of
                  None \<Rightarrow> (No_message_body, [])
                | Some bytes \<Rightarrow>
                    (case rawPath (decodeUint8Array bytes) of
                       None \<Rightarrow> (Could_not_extract_body, [])
                     | Some r \<Rightarrow> (Content (fst r), snd r)))))"

section \<open>The specification's wording, for comparison\<close>

text \<open>
  The fragments the specification says are passed over, judged by their content, and the
  work done on any other fragment.
\<close>

definition skipped :: "jsstring \<Rightarrow> bool" where
  "skipped part \<longleftrightarrow>
     trim part = [] \<or> js_includes part (js ''--'') \<or> length (js_split part CRLFCRLF) \<le> 1"

definition handlePart :: "accumulators \<Rightarrow> jsstring \<Rightarrow> accumulators" where
  "handlePart acc part =
     (case js_split part CRLFCRLF of
        [] \<Rightarrow> acc
      | headersText # contentParts \<Rightarrow> storePart headersText contentParts acc)"

definition noContent :: accumulators where
  "noContent = \<lparr>textContent = [], htmlContent = [], warnings = []\<rparr>"

text \<open>
  The splitter as the specification words it: the first fragment is the preamble and is
  always passed over.
\<close>

definition spec_multipartAccumulators :: "jsstring \<Rightarrow> jsstring \<Rightarrow> accumulators" where
  "spec_multipartAccumulators body bnd =
     foldl handlePart noContent
       (filter (\<lambda>part. \<not> skipped part) (tl (js_split body (js ''--'' @ bnd))))"

text \<open>
  What a part contributes, read off the loop body: its kind, and its decoded content.
\<close>

definition partHeaders :: "jsstring \<Rightarrow> (jsstring \<rightharpoonup> jsstring)" where
  "partHeaders part =
     parseSimpleLines (js_split (hd (js_split part CRLFCRLF)) CRLF) Map.empty"

definition partType :: "jsstring \<Rightarrow> jsstring" where
  "partType part = orDefault (partHeaders part (js ''Content-Type'')) (js ''text/plain'')"

definition partDecoded :: "jsstring \<Rightarrow> jsstring" where
  "partDecoded part =
     fst (decodeBody (js_join CRLFCRLF (tl (js_split part CRLFCRLF)))
            (Some (orDefault (partHeaders part (js ''Content-Transfer-Encoding'')) (js ''7bit''))))"

definition plainPart :: "jsstring \<Rightarrow> bool" where
  "plainPart part \<longleftrightarrow> \<not> skipped part \<and> js_includes (partType part) (js ''text/plain'')"

definition htmlPart :: "jsstring \<Rightarrow> bool" where
  "htmlPart part \<longleftrightarrow>
     \<not> skipped part \<and> \<not> js_includes (partType part) (js ''text/plain'') \<and>
     js_includes (partType part) (js ''text/html'')"

text \<open>
  Quoted-printable as the specification words it: a soft line break is \<open>=\<close> before any
  line terminator, and an escape is \<open>=\<close> before any two hexadecimal digits.
\<close>

definition isHexDigit :: "nat \<Rightarrow> bool" where
  "isHexDigit c \<longleftrightarrow>
     (0x30 \<le> c \<and> c \<le> 0x39) \<or> (0x41 \<le> c \<and> c \<le> 0x46) \<or> (0x61 \<le> c \<and> c \<le> 0x66)"

fun spec_softBreak :: "jsstring \<Rightarrow> (nat \<times> jsstring) option" where
  "spec_softBreak (e # c # rest) =
     (if e = 0x3D \<and> startsWith (c # rest) CRLF then Some (3, [])
      else if e = 0x3D \<and> isLineTerminator c then Some (2, [])
      else None)"
| "spec_softBreak s = None"

fun spec_hexEscape :: "jsstring \<Rightarrow> (nat \<times> jsstring) option" where
  "spec_hexEscape (e # a # b # rest) =
     (if e = 0x3D \<and> isHexDigit a \<and> isHexDigit b
      then Some (3, [hexValue a * 16 + hexValue b]) else None)"
| "spec_hexEscape s = None"

definition spec_decodeQuotedPrintable :: "jsstring \<Rightarrow> jsstring" where
  "spec_decodeQuotedPrintable s = replaceAll spec_hexEscape (replaceAll spec_softBreak s)"

text \<open>
  The same two passes for the soft line break \<open>=\<close> CR LF and the escapes in upper-case
  digits, written as plain recursions over the text.
\<close>

fun removeSoftBreaks :: "jsstring \<Rightarrow> jsstring" where
  "removeSoftBreaks (e # c # d # rest) =
     (if e = 0x3D \<and> c = 0x0D \<and> d = 0x0A then removeSoftBreaks rest
      else e # removeSoftBreaks (c # d # rest))"
| "removeSoftBreaks s = s"

fun replaceEscapes :: "jsstring \<Rightarrow> jsstring" where
  "replaceEscapes (e # a # b # rest) =
     (if e = 0x3D \<and> isUpperHex a \<and> isUpperHex b
      then (hexValue a * 16 + hexValue b) # replaceEscapes rest
      else e # replaceEscapes (a # b # rest))"
| "replaceEscapes s = s"

text \<open>
  Stripping as the specification words it: every tag is removed, then every run of
  whitespace is collapsed to a single space, then the text is trimmed.
\<close>

fun spec_htmlTag :: "jsstring \<Rightarrow> (nat \<times> jsstring) option" where
  "spec_htmlTag [] = None"
| "spec_htmlTag (c # cs) =
     (let inner = takeWhile (\<lambda>x. x \<noteq> 0x3E) cs
      in if c = 0x3C \<and> length inner < length cs
         then Some (length inner + 2, []) else None)"

definition spec_stripHtml :: "jsstring \<Rightarrow> jsstring" where
  "spec_stripHtml s = trim (replaceAll whiteRun (replaceAll spec_htmlTag s))"

text \<open>
  The two passes of the code, written as plain recursions over the text. A tag is a \<open><\<close>
  together with the text up to the next \<open>>\<close>; it is replaced by a space, and a \<open><\<close> with
  no \<open>>\<close> after it is left where it is. A run of whitespace is replaced by one space.
\<close>

function removeTags :: "jsstring \<Rightarrow> jsstring" where
  "removeTags [] = []"
| "removeTags (c # cs) =
     (if c = 0x3C \<and> 0x3E \<in> set cs
      then 0x20 # removeTags (tl (dropWhile (\<lambda>x. x \<noteq> 0x3E) cs))
      else c # removeTags cs)"
  by pat_completeness auto
termination
proof (relation "measure length")
  show "wf (measure length)" by simp
next
  fix c :: nat and cs :: jsstring
  have "length (tl (dropWhile (\<lambda>x. x \<noteq> 0x3E) cs)) \<le> length cs"
    using length_dropWhile_le[of "\<lambda>x. x \<noteq> 0x3E" cs] by simp
  then show "(tl (dropWhile (\<lambda>x. x \<noteq> 0x3E) cs), c # cs) \<in> measure length" by simp
next
  fix c :: nat and cs :: jsstring
  show "(cs, c # cs) \<in> measure length" by simp
qed

function collapseWhite :: "jsstring \<Rightarrow> jsstring" where
  "collapseWhite [] = []"
| "collapseWhite (c # cs) =
     (if isWhiteSpace c then 0x20 # collapseWhite (dropWhile isWhiteSpace cs)
      else c # collapseWhite cs)"
  by pat_completeness auto
termination
proof (relation "measure length")
  show "wf (measure length)" by simp
next
  fix c :: nat and cs :: jsstring
  have "length (dropWhile isWhiteSpace cs) \<le> length cs" by (rule length_dropWhile_le)
  then show "(dropWhile isWhiteSpace cs, c # cs) \<in> measure length" by simp
next
  fix c :: nat and cs :: jsstring
  show "(cs, c # cs) \<in> measure length" by simp
qed

text \<open>
  A text holds no tag when no \<open><\<close> in it has a \<open>>\<close> after it; its whitespace is collapsed
  when every whitespace code unit in it is a space that is not followed by whitespace.
\<close>

fun tagFree :: "jsstring \<Rightarrow> bool" where
  "tagFree [] = True"
| "tagFree (c # cs) = ((c = 0x3C \<longrightarrow> 0x3E \<notin> set cs) \<and> tagFree cs)"

fun collapsed :: "jsstring \<Rightarrow> bool" where
  "collapsed [] = True"
| "collapsed [c] = (isWhiteSpace c \<longrightarrow> c = 0x20)"
| "collapsed (a # b # rest) =
     ((isWhiteSpace a \<longrightarrow> a = 0x20 \<and> \<not> isWhiteSpace b) \<and> collapsed (b # rest))"

text \<open>
  The specification's \<open>encodeBase64\<close>: the standard base64 encoding, with padding, of the
  UTF-8 bytes of a string. A string is representable when it is well-formed UTF-16.
\<close>

fun representable :: "jsstring \<Rightarrow> bool" where
  "representable [] = True"
| "representable [c] = (c < 0xD800 \<or> (0xDFFF < c \<and> c < 0x10000))"
| "representable (h # l # rest) =
     (if isHighSurrogate h then isLowSurrogate l \<and> representable rest
      else (h < 0xD800 \<or> (0xDFFF < h \<and> h < 0x10000)) \<and> representable (l # rest))"

fun codePoints :: "jsstring \<Rightarrow> nat list" where
  "codePoints [] = []"
| "codePoints [c] = [if isHighSurrogate c \<or> isLowSurrogate c then 0xFFFD else c]"
| "codePoints (h # l # rest) =
     (if isHighSurrogate h \<and> isLowSurrogate l
      then (0x10000 + (h - 0xD800) * 0x400 + (l - 0xDC00)) # codePoints rest
      else (if isHighSurrogate h \<or> isLowSurrogate h then 0xFFFD else h) # codePoints (l # rest))"

definition utf8EncodePoint :: "nat \<Rightarrow> nat list" where
  "utf8EncodePoint c =
     (if c < 0x80 then [c]
      else if c < 0x800 then [0xC0 + c div 0x40, 0x80 + c mod 0x40]
      else if c < 0x10000 then
        [0xE0 + c div 0x1000, 0x80 + (c div 0x40) mod 0x40, 0x80 + c mod 0x40]
      else [0xF0 + c div 0x40000, 0x80 + (c div 0x1000) mod 0x40,
            0x80 + (c div 0x40) mod 0x40, 0x80 + c mod 0x40])"

definition utf8Encode :: "jsstring \<Rightarrow> nat list" where
  "utf8Encode s = concat (map utf8EncodePoint (codePoints s))"

definition base64Unit :: "nat \<Rightarrow> nat" where
  "base64Unit v =
     (if v < 26 then 0x41 + v
      else if v < 52 then 0x61 + (v - 26)
      else if v < 62 then 0x30 + (v - 52)
      else if v = 62 then 0x2B else 0x2F)"

fun base64Encode :: "nat list \<Rightarrow> jsstring" where
  "base64Encode (a # b # c # rest) =
     [base64Unit (a div 4), base64Unit ((a mod 4) * 16 + b div 16),
      base64Unit ((b mod 16) * 4 + c div 64), base64Unit (c mod 64)] @ base64Encode rest"
| "base64Encode [a, b] =
     [base64Unit (a div 4), base64Unit ((a mod 4) * 16 + b div 16),
      base64Unit ((b mod 16) * 4), 0x3D]"
| "base64Encode [a] = [base64Unit (a div 4), base64Unit ((a mod 4) * 16), 0x3D, 0x3D]"
| "base64Encode [] = []"

definition encodeBase64 :: "jsstring \<Rightarrow> jsstring" where
  "encodeBase64 s = base64Encode (utf8Encode s)"

text \<open>The sextets of the base64 encoding, before they are written as characters.\<close>

fun base64Sextets :: "nat list \<Rightarrow> nat list" where
  "base64Sextets (a # b # c # rest) =
     [a div 4, (a mod 4) * 16 + b div 16, (b mod 16) * 4 + c div 64, c mod 64] @
     base64Sextets rest"
| "base64Sextets [a, b] = [a div 4, (a mod 4) * 16 + b div 16, (b mod 16) * 4]"
| "base64Sextets [a] = [a div 4, (a mod 4) * 16]"
| "base64Sextets [] = []"

section \<open>Facts about lower-casing\<close>

lemma applyRules_none:
  "list_all (\<lambda>(lo, hi, st, ts). \<not> (lo \<le> c \<and> c \<le> hi \<and> (c - lo) mod st = 0)) rs \<Longrightarrow>
   applyRules rs c = [c]"
  by (induction rs) auto

lemma applyRules_image:
  "d \<in> set (applyRules rs c) \<Longrightarrow>
   d = c \<and> applyRules rs c = [c] \<or>
   (\<exists>lo hi st ts t. (lo, hi, st, ts) \<in> set rs \<and> lo \<le> c \<and> c \<le> hi \<and>
      (c - lo) mod st = 0 \<and> t \<in> set ts \<and> d = t + (c - lo))"
proof (induction rs)
  case Nil
  then show ?case by simp
next
  case (Cons r rs)
  obtain lo hi st ts where r: "r = (lo, hi, st, ts)" by (cases r)
  show ?case
  proof (cases "lo \<le> c \<and> c \<le> hi \<and> (c - lo) mod st = 0")
    case True
    with Cons.prems r obtain t where "t \<in> set ts" "d = t + (c - lo)" by auto
    with True r show ?thesis by fastforce
  next
    case False
    with Cons r show ?thesis by fastforce
  qed
qed

lemma applyRules_nonempty:
  "list_all (\<lambda>(lo, hi, st, ts). ts \<noteq> []) rs \<Longrightarrow> applyRules rs c \<noteq> []"
  by (induction rs) (auto split: if_splits)

lemma image_outside:
  fixes c lo hi st t lo' hi' st' :: nat
  assumes "lo \<le> c" "c \<le> hi" "(c - lo) mod st = 0"
    and "t + (hi - lo) < lo' \<or> hi' < t \<or>
         (st' = 2 \<and> (st = 2 \<or> lo = hi) \<and> t mod 2 \<noteq> lo' mod 2)"
  shows "\<not> (lo' \<le> t + (c - lo) \<and> t + (c - lo) \<le> hi' \<and> (t + (c - lo) - lo') mod st' = 0)"
proof
  assume a: "lo' \<le> t + (c - lo) \<and> t + (c - lo) \<le> hi' \<and> (t + (c - lo) - lo') mod st' = 0"
  define k where "k = c - lo"
  have k: "k \<le> hi - lo" using assms(1,2) unfolding k_def by arith
  from assms(4) a k have p: "st' = 2" "st = 2 \<or> lo = hi" "t mod 2 \<noteq> lo' mod 2"
    unfolding k_def[symmetric] by auto
  have "k mod 2 = 0" using p(2) assms(1,2,3) by (auto simp: k_def)
  moreover have "(t + k - lo') mod 2 = 0" "lo' \<le> t + k"
    using a p(1) by (simp_all add: k_def)
  ultimately show False using p(3) by presburger
qed

lemma images_avoid:
  "list_all (\<lambda>(lo, hi, st, ts).
     list_all (\<lambda>(lo', hi', st', ts').
       list_all (\<lambda>t. t + (hi - lo) < lo' \<or> hi' < t \<or>
                      (st' = 2 \<and> (st = 2 \<or> lo = hi) \<and> t mod 2 \<noteq> lo' mod 2)) ts)
       lowerRules) lowerRules"
  by (simp add: lowerRules_def)

lemma lowerPoint_fixed:
  assumes "d \<in> set (lowerPoint c)"
  shows "lowerPoint d = [d]"
proof -
  from applyRules_image[OF assms[unfolded lowerPoint_def]]
  consider "d = c" "applyRules lowerRules c = [c]"
    | lo hi st ts t where "(lo, hi, st, ts) \<in> set lowerRules" "lo \<le> c" "c \<le> hi"
        "(c - lo) mod st = 0" "t \<in> set ts" "d = t + (c - lo)"
    by (elim disjE exE conjE) blast+
  then show ?thesis
  proof cases
    case 1
    then show ?thesis by (simp add: lowerPoint_def)
  next
    case 2
    have "\<not> (lo' \<le> d \<and> d \<le> hi' \<and> (d - lo') mod st' = 0)"
      if "(lo', hi', st', ts') \<in> set lowerRules" for lo' hi' st' ts'
    proof -
      from images_avoid 2(1) that 2(5)
      have "t + (hi - lo) < lo' \<or> hi' < t \<or>
          (st' = 2 \<and> (st = 2 \<or> lo = hi) \<and> t mod 2 \<noteq> lo' mod 2)"
        unfolding list_all_iff by fastforce
      from image_outside[OF 2(2,3,4) this] show ?thesis unfolding 2(6) .
    qed
    then have "list_all (\<lambda>(lo, hi, st, ts). \<not> (lo \<le> d \<and> d \<le> hi \<and> (d - lo) mod st = 0)) lowerRules"
      unfolding list_all_iff by auto
    then show ?thesis unfolding lowerPoint_def by (rule applyRules_none)
  qed
qed

lemma lowerRules_head: "lowerRules = (0x41, 0x5A, 1, [0x61]) # tl lowerRules"
  by (simp add: lowerRules_def)

lemma lowerRules_tail: "list_all (\<lambda>(lo, hi, st, ts). 128 \<le> lo) (tl lowerRules)"
  by (simp add: lowerRules_def)

lemma lowerRules_targets: "list_all (\<lambda>(lo, hi, st, ts). ts \<noteq> []) lowerRules"
  by (simp add: lowerRules_def)

lemma lowerPoint_ascii:
  assumes "c < 128"
  shows "lowerPoint c = [lowerUnit c]"
proof -
  have "list_all (\<lambda>(lo, hi, st, ts). \<not> (lo \<le> c \<and> c \<le> hi \<and> (c - lo) mod st = 0)) (tl lowerRules)"
    using lowerRules_tail assms unfolding list_all_iff by fastforce
  then have t: "applyRules (tl lowerRules) c = [c]" by (rule applyRules_none)
  have "lowerPoint c = applyRules ((0x41, 0x5A, 1, [0x61]) # tl lowerRules) c"
    unfolding lowerPoint_def using lowerRules_head by simp
  then show ?thesis using t by (simp add: lowerUnit_def)
qed

lemma lowerPoint_nonempty: "lowerPoint c \<noteq> []"
  unfolding lowerPoint_def using lowerRules_targets by (rule applyRules_nonempty)

lemma lowerPoint_sigma:
  "lowerPoint 0x3A3 = [0x3C3]" "lowerPoint 0x3C3 = [0x3C3]" "lowerPoint 0x3C2 = [0x3C2]"
  by (simp_all add: lowerPoint_def lowerRules_def)

lemma lowerAll_fixed:
  "d \<in> set (lowerAll before cps) \<Longrightarrow> lowerPoint d = [d] \<and> d \<noteq> 0x3A3"
proof (induction cps arbitrary: before)
  case Nil
  then show ?case by simp
next
  case (Cons c cps)
  have s: "lowerPoint x = [x] \<Longrightarrow> x \<noteq> 0x3A3" for x
    using lowerPoint_sigma(1) by auto
  from Cons.prems consider "d \<in> set (lowerAll (c # before) cps)"
    | "c = 0x3A3" "d = 0x3C2 \<or> d = 0x3C3" | "c \<noteq> 0x3A3" "d \<in> set (lowerPoint c)"
    by (auto simp: lowerAt_def split: if_splits)
  then show ?case
  proof cases
    case 1
    then show ?thesis by (rule Cons.IH)
  next
    case 2
    then show ?thesis using lowerPoint_sigma by auto
  next
    case 3
    then show ?thesis using lowerPoint_fixed s by blast
  qed
qed

lemma lowerAll_ascii: "\<forall>c\<in>set s. c < 128 \<Longrightarrow> lowerAll before s = map lowerUnit s"
  by (induction s arbitrary: before) (simp_all add: lowerAt_def lowerPoint_ascii)

lemma lowerAll_Nil_iff: "lowerAll before cps = [] \<longleftrightarrow> cps = []"
  by (cases cps) (simp_all add: lowerAt_def lowerPoint_nonempty)

lemma toCodePoints_units: "\<forall>c\<in>set s. c < 0xD800 \<Longrightarrow> toCodePoints s = s"
  by (induction s rule: toCodePoints.induct) (simp_all add: isHighSurrogate_def)

lemma toCodePoints_Nil_iff: "toCodePoints s = [] \<longleftrightarrow> s = []"
  by (cases s rule: toCodePoints.cases) simp_all

lemma utf16Encode_units: "\<forall>c\<in>set cps. c < 0x10000 \<Longrightarrow> utf16Encode cps = cps"
  by (induction cps) simp_all

lemma utf16Encode_Nil_iff: "utf16Encode cps = [] \<longleftrightarrow> cps = []"
  by (cases cps) simp_all

lemma toLowerCase_ascii: "\<forall>c\<in>set s. c < 128 \<Longrightarrow> toLowerCase s = map lowerUnit s"
proof -
  assume a: "\<forall>c\<in>set s. c < 128"
  then have "toCodePoints s = s" by (intro toCodePoints_units) auto
  moreover have "utf16Encode (map lowerUnit s) = map lowerUnit s"
    using a by (intro utf16Encode_units) (auto simp: lowerUnit_def)
  ultimately show ?thesis by (simp add: toLowerCase_def lowerAll_ascii[OF a])
qed

lemma toLowerCase_Nil_iff: "toLowerCase s = [] \<longleftrightarrow> s = []"
  by (simp add: toLowerCase_def utf16Encode_Nil_iff lowerAll_Nil_iff toCodePoints_Nil_iff)

lemma toLowerCase_points:
  "\<exists>cps. toLowerCase s = utf16Encode cps \<and> (\<forall>d\<in>set cps. lowerPoint d = [d] \<and> d \<noteq> 0x3A3)"
  unfolding toLowerCase_def using lowerAll_fixed by blast

lemma lowerRules_range:
  "list_all (\<lambda>(lo, hi, st, ts).
     list_all (\<lambda>t. t + (hi - lo) < 0xD800 \<or> (0xDFFF < t \<and> t + (hi - lo) < 0x110000)) ts)
     lowerRules"
  by (simp add: lowerRules_def)

lemma lowerPoint_range:
  assumes "c < 0x110000" "d \<in> set (lowerPoint c)"
  shows "d < 0x110000"
    and "0xD800 \<le> d \<and> d \<le> 0xDFFF \<Longrightarrow> lowerPoint c = [c]"
proof -
  from applyRules_image[OF assms(2)[unfolded lowerPoint_def]]
  consider "d = c" "applyRules lowerRules c = [c]"
    | lo hi st ts t where "(lo, hi, st, ts) \<in> set lowerRules" "lo \<le> c" "c \<le> hi"
        "(c - lo) mod st = 0" "t \<in> set ts" "d = t + (c - lo)"
    by (elim disjE exE conjE) blast+
  then have "d < 0x110000 \<and> (0xD800 \<le> d \<and> d \<le> 0xDFFF \<longrightarrow> lowerPoint c = [c])"
  proof cases
    case 1
    then show ?thesis using assms(1) by (simp add: lowerPoint_def)
  next
    case 2
    from lowerRules_range 2(1,5)
    have "t + (hi - lo) < 0xD800 \<or> (0xDFFF < t \<and> t + (hi - lo) < 0x110000)"
      unfolding list_all_iff by fastforce
    moreover have "c - lo \<le> hi - lo" using 2(2,3) by arith
    ultimately show ?thesis unfolding 2(6) by arith
  qed
  then show "d < 0x110000" "0xD800 \<le> d \<and> d \<le> 0xDFFF \<Longrightarrow> lowerPoint c = [c]" by blast+
qed

lemma pointSequence_Cons:
  "pointSequence (a # xs) \<longleftrightarrow>
     a < 0x110000 \<and> (xs \<noteq> [] \<longrightarrow> \<not> (isHighSurrogate a \<and> isLowSurrogate (hd xs))) \<and> pointSequence xs"
  by (cases xs) auto

lemma pointSequence_append:
  "pointSequence (xs @ ys) \<longleftrightarrow>
     pointSequence xs \<and> pointSequence ys \<and>
     (xs \<noteq> [] \<and> ys \<noteq> [] \<longrightarrow> \<not> (isHighSurrogate (last xs) \<and> isLowSurrogate (hd ys)))"
proof (induction xs)
  case Nil
  then show ?case by simp
next
  case (Cons a xs)
  show ?case unfolding append_Cons pointSequence_Cons Cons.IH by (cases xs) auto
qed

lemma pointSequence_plain:
  "\<forall>d\<in>set xs. d < 0x110000 \<and> \<not> isHighSurrogate d \<Longrightarrow> pointSequence xs"
  by (induction xs) (auto simp: pointSequence_Cons)

lemma toCodePoints_hd:
  "hd (toCodePoints (l # rest)) = l \<or> 0x10000 \<le> hd (toCodePoints (l # rest))"
  by (cases rest) auto

lemma toCodePoints_pointSequence: "codeUnits s \<Longrightarrow> pointSequence (toCodePoints s)"
proof (induction s rule: toCodePoints.induct)
  case 1
  then show ?case by simp
next
  case (2 c)
  then show ?case by (simp add: codeUnits_def)
next
  case (3 h l rest)
  show ?case
  proof (cases "isHighSurrogate h \<and> isLowSurrogate l")
    case True
    have "codeUnits rest" using 3(3) by (simp add: codeUnits_def)
    with 3(1) True have "pointSequence (toCodePoints rest)" by simp
    moreover have "0x10000 + (h - 0xD800) * 0x400 + (l - 0xDC00) < 0x110000"
      using True by (auto simp: isHighSurrogate_def isLowSurrogate_def)
    ultimately show ?thesis using True
      by (simp add: pointSequence_Cons) (simp add: isHighSurrogate_def)
  next
    case False
    have "codeUnits (l # rest)" using 3(3) by (simp add: codeUnits_def)
    with 3(2) False have p: "pointSequence (toCodePoints (l # rest))" by simp
    have h: "h < 0x110000" using 3(3) by (simp add: codeUnits_def)
    have "\<not> (isHighSurrogate h \<and> isLowSurrogate (hd (toCodePoints (l # rest))))"
      using toCodePoints_hd[of l rest] False by (auto simp: isLowSurrogate_def)
    moreover have "toCodePoints (h # l # rest) = h # toCodePoints (l # rest)"
      by (simp add: False)
    ultimately show ?thesis using p h by (simp add: pointSequence_Cons)
  qed
qed

lemma toCodePoints_Cons:
  "us = [] \<or> \<not> (isHighSurrogate c \<and> isLowSurrogate (hd us)) \<Longrightarrow>
   toCodePoints (c # us) = c # toCodePoints us"
  by (cases us) auto

lemma pair_point:
  assumes "0x10000 \<le> c" "c < 0x110000"
  shows "isHighSurrogate (0xD800 + (c - 0x10000) div 0x400)"
    and "isLowSurrogate (0xDC00 + (c - 0x10000) mod 0x400)"
    and "0x10000 + (0xD800 + (c - 0x10000) div 0x400 - 0xD800) * 0x400 +
           (0xDC00 + (c - 0x10000) mod 0x400 - 0xDC00) = c"
proof -
  define k where "k = c - 0x10000"
  have k: "k < 0x100000" "c = 0x10000 + k" using assms by (simp_all add: k_def)
  have d: "k div 0x400 < 0x400" using k(1) by (simp add: less_mult_imp_div_less)
  have m: "k mod 0x400 < 0x400" by simp
  show "isHighSurrogate (0xD800 + (c - 0x10000) div 0x400)"
    unfolding k_def[symmetric] isHighSurrogate_def using d by simp
  show "isLowSurrogate (0xDC00 + (c - 0x10000) mod 0x400)"
    unfolding k_def[symmetric] isLowSurrogate_def using m by simp
  have "k div 0x400 * 0x400 + k mod 0x400 = k" by (rule div_mult_mod_eq)
  then show "0x10000 + (0xD800 + (c - 0x10000) div 0x400 - 0xD800) * 0x400 +
           (0xDC00 + (c - 0x10000) mod 0x400 - 0xDC00) = c"
    unfolding k_def[symmetric] using k(2) by simp
qed

lemma utf16Encode_hd:
  assumes "cps \<noteq> []" "hd cps < 0x110000"
  shows "hd (utf16Encode cps) = hd cps \<or> \<not> isLowSurrogate (hd (utf16Encode cps))"
proof (cases cps)
  case Nil
  with assms show ?thesis by simp
next
  case (Cons c rest)
  show ?thesis
  proof (cases "c < 0x10000")
    case True
    then show ?thesis unfolding Cons by simp
  next
    case False
    then have "0x10000 \<le> c" by simp
    from pair_point(1)[OF this] assms(2) Cons False show ?thesis
      by (simp add: isHighSurrogate_def isLowSurrogate_def)
  qed
qed

lemma toCodePoints_utf16Encode: "pointSequence cps \<Longrightarrow> toCodePoints (utf16Encode cps) = cps"
proof (induction cps)
  case Nil
  then show ?case by simp
next
  case (Cons c cps)
  from Cons.prems have c: "c < 0x110000"
    and n: "cps \<noteq> [] \<longrightarrow> \<not> (isHighSurrogate c \<and> isLowSurrogate (hd cps))"
    and p: "pointSequence cps"
    unfolding pointSequence_Cons by simp_all
  note ih = Cons.IH[OF p]
  show ?case
  proof (cases "c < 0x10000")
    case True
    have "utf16Encode cps = [] \<or> \<not> (isHighSurrogate c \<and> isLowSurrogate (hd (utf16Encode cps)))"
    proof (cases cps)
      case Nil
      then show ?thesis by simp
    next
      case (Cons b rest)
      have "hd cps < 0x110000" using p unfolding Cons pointSequence_Cons by simp
      with utf16Encode_hd[of cps] n Cons show ?thesis by auto
    qed
    from toCodePoints_Cons[OF this] True ih show ?thesis by simp
  next
    case False
    then have ge: "0x10000 \<le> c" by simp
    from pair_point[OF ge c] ih False show ?thesis by simp
  qed
qed

lemma lowerAll_same:
  "\<forall>d\<in>set cps. lowerPoint d = [d] \<and> d \<noteq> 0x3A3 \<Longrightarrow> lowerAll before cps = cps"
  by (induction cps arbitrary: before) (simp_all add: lowerAt_def)

lemma lowerAt_props:
  assumes "c < 0x110000"
  shows "lowerAt before c after \<noteq> []"
    and "pointSequence (lowerAt before c after)"
    and "d \<in> set (lowerAt before c after) \<Longrightarrow> 0xD800 \<le> d \<and> d \<le> 0xDFFF \<Longrightarrow>
         lowerAt before c after = [c]"
proof -
  show "lowerAt before c after \<noteq> []" by (simp add: lowerAt_def lowerPoint_nonempty)
  show s: "lowerAt before c after = [c]"
    if "d \<in> set (lowerAt before c after)" "0xD800 \<le> d \<and> d \<le> 0xDFFF" for d
    using that lowerPoint_range(2)[OF assms, of d] by (auto simp: lowerAt_def split: if_splits)
  show "pointSequence (lowerAt before c after)"
  proof (cases "lowerAt before c after = [c]")
    case True
    then show ?thesis using assms by simp
  next
    case False
    have "\<forall>d\<in>set (lowerAt before c after). d < 0x110000 \<and> \<not> isHighSurrogate d"
    proof
      fix d assume d: "d \<in> set (lowerAt before c after)"
      have "\<not> isHighSurrogate d" using s[OF d] False by (auto simp: isHighSurrogate_def)
      moreover have "d < 0x110000"
        using d lowerPoint_range(1)[OF assms, of d] by (auto simp: lowerAt_def split: if_splits)
      ultimately show "d < 0x110000 \<and> \<not> isHighSurrogate d" by simp
    qed
    then show ?thesis by (rule pointSequence_plain)
  qed
qed

lemma lowerAll_pointSequence:
  "pointSequence cps \<Longrightarrow> pointSequence (lowerAll before cps)"
proof (induction cps arbitrary: before)
  case Nil
  then show ?case by simp
next
  case (Cons c cps)
  from Cons.prems have c: "c < 0x110000"
    and n: "cps \<noteq> [] \<longrightarrow> \<not> (isHighSurrogate c \<and> isLowSurrogate (hd cps))"
    and p: "pointSequence cps"
    unfolding pointSequence_Cons by simp_all
  let ?P = "lowerAt before c cps"
  let ?R = "lowerAll (c # before) cps"
  have eq: "lowerAll before (c # cps) = ?P @ ?R" by simp
  have r: "pointSequence ?R" using p by (rule Cons.IH)
  have b: "\<not> (isHighSurrogate (last ?P) \<and> isLowSurrogate (hd ?R))" if ne: "?R \<noteq> []"
  proof
    assume a: "isHighSurrogate (last ?P) \<and> isLowSurrogate (hd ?R)"
    have "last ?P \<in> set ?P" using lowerAt_props(1)[OF c] by simp
    from lowerAt_props(3)[OF c this] a have pc: "?P = [c]" by (auto simp: isHighSurrogate_def)
    from ne obtain a' rest where cps: "cps = a' # rest" by (cases cps) auto
    have a': "a' < 0x110000" using p unfolding cps pointSequence_Cons by simp
    let ?Q = "lowerAt (c # before) a' rest"
    have q: "?R = ?Q @ lowerAll (a' # c # before) rest" unfolding cps by simp
    have qn: "?Q \<noteq> []" using lowerAt_props(1)[OF a'] .
    then have h: "hd ?R = hd ?Q" unfolding q by simp
    have "hd ?Q \<in> set ?Q" using qn by simp
    from lowerAt_props(3)[OF a' this] a h have "?Q = [a']" by (auto simp: isLowSurrogate_def)
    with h have "hd ?R = a'" by simp
    with a pc n cps show False by simp
  qed
  show ?case unfolding eq pointSequence_append
    using lowerAt_props(1,2)[OF c] r b by blast
qed

lemma toLowerCase_idem:
  assumes "codeUnits s"
  shows "toLowerCase (toLowerCase s) = toLowerCase s"
proof -
  let ?M = "lowerAll [] (toCodePoints s)"
  have "pointSequence ?M"
    using assms by (intro lowerAll_pointSequence toCodePoints_pointSequence)
  then have "toCodePoints (utf16Encode ?M) = ?M" by (rule toCodePoints_utf16Encode)
  moreover have "lowerAll [] ?M = ?M" using lowerAll_fixed by (intro lowerAll_same) blast
  ultimately show ?thesis by (simp add: toLowerCase_def)
qed

lemma utf16Encode_unit: "u \<in> set (utf16Encode cps) \<Longrightarrow> u \<in> set cps \<or> 0xD800 \<le> u"
  by (induction cps) (auto split: if_splits)

lemma toLowerCase_no_capital:
  assumes "c \<in> set (toLowerCase s)"
  shows "\<not> (0x41 \<le> c \<and> c \<le> 0x5A)"
proof
  assume a: "0x41 \<le> c \<and> c \<le> 0x5A"
  from assms utf16Encode_unit[of c "lowerAll [] (toCodePoints s)"] a
  have "c \<in> set (lowerAll [] (toCodePoints s))" by (auto simp: toLowerCase_def)
  then have "lowerPoint c = [c]" using lowerAll_fixed by blast
  moreover have "lowerPoint c = [lowerUnit c]" using a by (intro lowerPoint_ascii) simp
  ultimately show False using a by (simp add: lowerUnit_def)
qed

section \<open>Evaluation on concrete inputs\<close>

lemmas string_defs =
  js_def CRLF_def CRLFCRLF_def trim_def isWhiteSpace_def isLineTerminator_def
  toLowerCase_ascii lowerUnit_def js_split_def

lemmas regex_defs =
  softBreak_def isUpperHex_def hexValue_def whiteRun_def typeMatch_def boundaryAt_def
  boundaryMatch_def headerMatch_def leadingSpace_def stripHtml_def

lemmas decoder_defs =
  isAsciiWhitespace_def isBase64Unit_def base64Value_def stripPadding_def atob_def
  stripBOM_def textDecode_def decodeUint8Array_def decodeBase64_def
  decodeQuotedPrintable_def decodeBody_def

lemmas multipart_defs =
  orDefault_def storePart_def processPart_def noReadableContent_def selectContent_def
  multipartAccumulators_def parseMultipartMessage_def Let_def

section \<open>Tags stripped and whitespace collapsed\<close>

lemma drop_takeWhile: "drop (length (takeWhile P xs)) xs = dropWhile P xs"
  by (induction xs) auto

lemma takeWhile_short: "length (takeWhile P xs) < length xs \<longleftrightarrow> (\<exists>x\<in>set xs. \<not> P x)"
  by (induction xs) auto

lemma replaceAll_htmlTag: "replaceAll htmlTag s = removeTags s"
proof (induction s rule: removeTags.induct)
  case 1
  then show ?case by simp
next
  case (2 c cs)
  let ?inner = "takeWhile (\<lambda>x. x \<noteq> 0x3E) cs"
  have short: "length ?inner < length cs \<longleftrightarrow> 0x3E \<in> set cs"
    unfolding takeWhile_short by auto
  show ?case
  proof (cases "c = 0x3C \<and> 0x3E \<in> set cs")
    case True
    have "drop (Suc (length ?inner)) cs = tl (dropWhile (\<lambda>x. x \<noteq> 0x3E) cs)"
      by (simp add: drop_Suc drop_tl drop_takeWhile)
    with True 2(1) short show ?thesis by (simp add: Let_def)
  next
    case False
    with 2(2) short show ?thesis by (auto simp: Let_def)
  qed
qed

lemma replaceAll_whiteRun: "replaceAll whiteRun s = collapseWhite s"
proof (induction s rule: collapseWhite.induct)
  case 1
  then show ?case by simp
next
  case (2 c cs)
  show ?case
  proof (cases "isWhiteSpace c")
    case True
    with 2(1) show ?thesis by (simp add: whiteRun_def Let_def drop_takeWhile)
  next
    case False
    with 2(2) show ?thesis by (simp add: whiteRun_def Let_def)
  qed
qed

lemma stripHtml_eq: "stripHtml s = trim (collapseWhite (removeTags s))"
  by (simp add: stripHtml_def replaceAll_htmlTag replaceAll_whiteRun)

lemma removeTags_text: "0x3C \<notin> set a \<Longrightarrow> removeTags (a @ b) = a @ removeTags b"
  by (induction a) auto

lemma removeTags_open: "0x3E \<notin> set r \<Longrightarrow> removeTags r = r"
  by (induction r) auto

lemma removeTags_tag:
  assumes "0x3E \<notin> set t"
  shows "removeTags (0x3C # t @ 0x3E # b) = 0x20 # removeTags b"
proof -
  have "dropWhile (\<lambda>x. x \<noteq> 0x3E) (t @ 0x3E # b) = 0x3E # b"
    using assms by (induction t) auto
  then show ?thesis by simp
qed

lemma collapseWhite_text:
  "\<forall>c\<in>set a. \<not> isWhiteSpace c \<Longrightarrow> collapseWhite (a @ b) = a @ collapseWhite b"
  by (induction a) auto

lemma collapseWhite_run:
  assumes "w \<noteq> []" "\<forall>c\<in>set w. isWhiteSpace c" "b = [] \<or> \<not> isWhiteSpace (hd b)"
  shows "collapseWhite (w @ b) = 0x20 # collapseWhite b"
proof -
  obtain c cs where w: "w = c # cs" using assms(1) by (cases w) auto
  have "dropWhile isWhiteSpace (cs @ b) = b"
    using assms(2,3) unfolding w by (induction cs) (auto simp: dropWhile_eq_self_iff)
  then show ?thesis using assms(2) unfolding w by simp
qed

lemma removeTags_set: "set (removeTags s) \<subseteq> insert 0x20 (set s)"
proof (induction s rule: removeTags.induct)
  case 1
  then show ?case by simp
next
  case (2 c cs)
  have "set (tl (dropWhile (\<lambda>x. x \<noteq> 0x3E) cs)) \<subseteq> set cs"
    by (metis list.set_sel(2) set_dropWhileD subsetI tl_Nil)
  with 2 show ?case by auto
qed

lemma collapseWhite_set: "set (collapseWhite s) \<subseteq> insert 0x20 (set s)"
proof (induction s rule: collapseWhite.induct)
  case 1
  then show ?case by simp
next
  case (2 c cs)
  have "set (dropWhile isWhiteSpace cs) \<subseteq> set cs" by (auto dest: set_dropWhileD)
  with 2 show ?case by auto
qed

lemma tagFree_append: "tagFree (a @ b) \<Longrightarrow> tagFree a \<and> tagFree b"
  by (induction a) auto

lemma tagFree_split: "tagFree r \<Longrightarrow> r = a @ 0x3C # b \<Longrightarrow> 0x3E \<notin> set b"
  using tagFree_append[of a "0x3C # b"] by simp

lemma collapsed_append: "collapsed (a @ b) \<Longrightarrow> collapsed a \<and> collapsed b"
proof (induction a rule: collapsed.induct)
  case 1
  then show ?case by simp
next
  case (2 c)
  then show ?case by (cases b) auto
next
  case (3 x y rest)
  then show ?case by simp
qed

lemma collapsed_space: "collapsed r \<Longrightarrow> c \<in> set r \<Longrightarrow> isWhiteSpace c \<Longrightarrow> c = 0x20"
  by (induction r rule: collapsed.induct) auto

lemma collapsed_split: "collapsed r \<Longrightarrow> r = a @ x # y # b \<Longrightarrow> \<not> (isWhiteSpace x \<and> isWhiteSpace y)"
  using collapsed_append[of a "x # y # b"] by auto

lemma removeTags_tagFree: "tagFree (removeTags s)"
proof (induction s rule: removeTags.induct)
  case 1
  then show ?case by simp
next
  case (2 c cs)
  show ?case
  proof (cases "c = 0x3C \<and> 0x3E \<in> set cs")
    case True
    with 2(1) show ?thesis by simp
  next
    case False
    have "0x3E \<notin> set cs \<Longrightarrow> 0x3E \<notin> set (removeTags cs)"
      using removeTags_set[of cs] by auto
    with False 2(2) show ?thesis by auto
  qed
qed

lemma tagFree_dropWhile: "tagFree s \<Longrightarrow> tagFree (dropWhile P s)"
  using tagFree_append[of "takeWhile P s" "dropWhile P s"] by simp

lemma collapseWhite_tagFree: "tagFree s \<Longrightarrow> tagFree (collapseWhite s)"
proof (induction s rule: collapseWhite.induct)
  case 1
  then show ?case by simp
next
  case (2 c cs)
  from 2(3) have cs: "tagFree cs" and lt: "c = 0x3C \<longrightarrow> 0x3E \<notin> set cs" by simp_all
  show ?case
  proof (cases "isWhiteSpace c")
    case True
    have "tagFree (dropWhile isWhiteSpace cs)" using cs by (rule tagFree_dropWhile)
    with True 2(1) show ?thesis by simp
  next
    case False
    have "0x3E \<notin> set cs \<Longrightarrow> 0x3E \<notin> set (collapseWhite cs)"
      using collapseWhite_set[of cs] by auto
    with False 2(2) cs lt show ?thesis by auto
  qed
qed

lemma collapseWhite_hd:
  "collapseWhite s \<noteq> [] \<Longrightarrow> isWhiteSpace (hd (collapseWhite s)) \<Longrightarrow> s \<noteq> [] \<and> isWhiteSpace (hd s)"
  by (cases s) (auto simp: isWhiteSpace_def split: if_splits)

lemma collapseWhite_collapsed: "collapsed (collapseWhite s)"
proof (induction s rule: collapseWhite.induct)
  case 1
  then show ?case by simp
next
  case (2 c cs)
  have sp: "isWhiteSpace 0x20" by (simp add: isWhiteSpace_def)
  show ?case
  proof (cases "isWhiteSpace c")
    case True
    let ?d = "dropWhile isWhiteSpace cs"
    have ih: "collapsed (collapseWhite ?d)" using True 2(1) by simp
    have "\<not> isWhiteSpace (hd (collapseWhite ?d))" if "collapseWhite ?d \<noteq> []"
    proof
      assume "isWhiteSpace (hd (collapseWhite ?d))"
      from collapseWhite_hd[OF that this] have "?d \<noteq> []" "isWhiteSpace (hd ?d)" by simp_all
      then show False using hd_dropWhile[of isWhiteSpace cs] by simp
    qed
    with ih True show ?thesis by (cases "collapseWhite ?d") auto
  next
    case False
    with 2(2) show ?thesis by (cases "collapseWhite cs") auto
  qed
qed

lemma trim_parts: "\<exists>a b. s = a @ trim s @ b"
proof -
  let ?t = "dropWhile isWhiteSpace s"
  have "s = takeWhile isWhiteSpace s @ ?t" by simp
  moreover have "?t = rev (dropWhile isWhiteSpace (rev ?t)) @ rev (takeWhile isWhiteSpace (rev ?t))"
    by (metis rev_append rev_rev_ident takeWhile_dropWhile_id)
  moreover have "trim s = rev (dropWhile isWhiteSpace (rev ?t))" by (simp add: trim_def)
  ultimately show ?thesis by metis
qed

lemma trim_ends:
  assumes "trim s \<noteq> []"
  shows "\<not> isWhiteSpace (hd (trim s))" "\<not> isWhiteSpace (last (trim s))"
proof -
  let ?t = "dropWhile isWhiteSpace s"
  let ?u = "dropWhile isWhiteSpace (rev ?t)"
  have t: "trim s = rev ?u" by (simp add: trim_def)
  with assms have u: "?u \<noteq> []" by simp
  then have "\<not> isWhiteSpace (hd ?u)" by (rule hd_dropWhile)
  then show "\<not> isWhiteSpace (last (trim s))" unfolding t using u by (simp add: last_rev)
  have tn: "?t \<noteq> []" using u by (metis dropWhile.simps(1) rev.simps(1))
  then have h: "\<not> isWhiteSpace (hd ?t)" by (rule hd_dropWhile)
  have "rev ?t = takeWhile isWhiteSpace (rev ?t) @ ?u" by simp
  then have "?t = rev ?u @ rev (takeWhile isWhiteSpace (rev ?t))"
    by (metis rev_append rev_rev_ident)
  then have "hd ?t = hd (rev ?u)" using u by (metis hd_append2 rev_is_Nil_conv)
  with h show "\<not> isWhiteSpace (hd (trim s))" unfolding t by simp
qed

lemma stripHtml_shape:
  "tagFree (stripHtml s)" "collapsed (stripHtml s)"
proof -
  let ?c = "collapseWhite (removeTags s)"
  obtain a b where p: "?c = a @ stripHtml s @ b"
    using trim_parts[of ?c] unfolding stripHtml_eq by blast
  have "tagFree ?c" by (intro collapseWhite_tagFree removeTags_tagFree)
  then show "tagFree (stripHtml s)" unfolding p by (auto dest!: tagFree_append)
  have "collapsed ?c" by (rule collapseWhite_collapsed)
  then show "collapsed (stripHtml s)" unfolding p by (auto dest!: collapsed_append)
qed

section \<open>The final selection of \<open>parseMultipartMessage\<close>\<close>

text \<open>
  C5, as the code has it. After all fragments are processed, \<open>parseMultipartMessage\<close>
  returns the text/plain accumulator if it is non-empty; otherwise, if the text/html
  accumulator is non-empty, that accumulator with each tag replaced by a space, each run of
  whitespace then replaced by one space, and the result trimmed; otherwise the fixed
  sentinel string. Replacing the tags keeps the text before the first \<open><\<close>, puts a space
  for a \<open><\<close> and the text up to the next \<open>>\<close>, and keeps a text without \<open>>\<close> as it is;
  collapsing the whitespace keeps the text before the first whitespace and puts one space
  for each run of whitespace. The text returned from the text/html accumulator has no \<open>>\<close>
  after a \<open><\<close>, no whitespace other than single spaces, and no whitespace at its two ends.
\<close>

theorem parseMultipartMessage_preference:
  "fst (parseMultipartMessage body bnd) =
     (let acc = multipartAccumulators body bnd
      in if textContent acc \<noteq> [] then textContent acc
         else if htmlContent acc \<noteq> []
              then trim (collapseWhite (removeTags (htmlContent acc)))
         else js ''No readable content found in the message.'')
   \<and> (\<forall>a b. 0x3C \<notin> set a \<longrightarrow> removeTags (a @ b) = a @ removeTags b)
   \<and> (\<forall>t b. 0x3E \<notin> set t \<longrightarrow> removeTags (0x3C # t @ 0x3E # b) = 0x20 # removeTags b)
   \<and> (\<forall>r. 0x3E \<notin> set r \<longrightarrow> removeTags r = r)
   \<and> (\<forall>a b. (\<forall>c\<in>set a. \<not> isWhiteSpace c) \<longrightarrow> collapseWhite (a @ b) = a @ collapseWhite b)
   \<and> (\<forall>w b. w \<noteq> [] \<and> (\<forall>c\<in>set w. isWhiteSpace c) \<and> (b = [] \<or> \<not> isWhiteSpace (hd b)) \<longrightarrow>
          collapseWhite (w @ b) = 0x20 # collapseWhite b)
   \<and> (textContent (multipartAccumulators body bnd) = [] \<and>
      htmlContent (multipartAccumulators body bnd) \<noteq> [] \<longrightarrow>
        (\<forall>a b. fst (parseMultipartMessage body bnd) = a @ 0x3C # b \<longrightarrow> 0x3E \<notin> set b) \<and>
        (\<forall>c\<in>set (fst (parseMultipartMessage body bnd)). isWhiteSpace c \<longrightarrow> c = 0x20) \<and>
        (\<forall>a x y b. fst (parseMultipartMessage body bnd) = a @ x # y # b \<longrightarrow>
            \<not> (isWhiteSpace x \<and> isWhiteSpace y)) \<and>
        (fst (parseMultipartMessage body bnd) \<noteq> [] \<longrightarrow>
            \<not> isWhiteSpace (hd (fst (parseMultipartMessage body bnd))) \<and>
            \<not> isWhiteSpace (last (fst (parseMultipartMessage body bnd)))))"
proof -
  let ?acc = "multipartAccumulators body bnd"
  let ?r = "fst (parseMultipartMessage body bnd)"
  have sel: "?r =
     (let acc = multipartAccumulators body bnd
      in if textContent acc \<noteq> [] then textContent acc
         else if htmlContent acc \<noteq> []
              then trim (collapseWhite (removeTags (htmlContent acc)))
         else js ''No readable content found in the message.'')"
    by (simp add: parseMultipartMessage_def selectContent_def noReadableContent_def Let_def
        stripHtml_eq)
  have e1: "\<forall>a b. 0x3C \<notin> set a \<longrightarrow> removeTags (a @ b) = a @ removeTags b"
    by (intro allI impI) (rule removeTags_text)
  have e2: "\<forall>t b. 0x3E \<notin> set t \<longrightarrow> removeTags (0x3C # t @ 0x3E # b) = 0x20 # removeTags b"
    by (intro allI impI) (rule removeTags_tag)
  have e3: "\<forall>r. 0x3E \<notin> set r \<longrightarrow> removeTags r = r"
    by (intro allI impI) (rule removeTags_open)
  have e4: "\<forall>a b. (\<forall>c\<in>set a. \<not> isWhiteSpace c) \<longrightarrow> collapseWhite (a @ b) = a @ collapseWhite b"
    by (intro allI impI) (rule collapseWhite_text)
  have e5: "\<forall>w b. w \<noteq> [] \<and> (\<forall>c\<in>set w. isWhiteSpace c) \<and> (b = [] \<or> \<not> isWhiteSpace (hd b)) \<longrightarrow>
          collapseWhite (w @ b) = 0x20 # collapseWhite b"
  proof (intro allI impI)
    fix w b :: jsstring
    assume "w \<noteq> [] \<and> (\<forall>c\<in>set w. isWhiteSpace c) \<and> (b = [] \<or> \<not> isWhiteSpace (hd b))"
    then show "collapseWhite (w @ b) = 0x20 # collapseWhite b"
      using collapseWhite_run[of w b] by simp
  qed
  have shape: "textContent ?acc = [] \<and> htmlContent ?acc \<noteq> [] \<longrightarrow>
        (\<forall>a b. ?r = a @ 0x3C # b \<longrightarrow> 0x3E \<notin> set b) \<and>
        (\<forall>c\<in>set ?r. isWhiteSpace c \<longrightarrow> c = 0x20) \<and>
        (\<forall>a x y b. ?r = a @ x # y # b \<longrightarrow> \<not> (isWhiteSpace x \<and> isWhiteSpace y)) \<and>
        (?r \<noteq> [] \<longrightarrow> \<not> isWhiteSpace (hd ?r) \<and> \<not> isWhiteSpace (last ?r))"
  proof
    assume h: "textContent ?acc = [] \<and> htmlContent ?acc \<noteq> []"
    have r: "?r = stripHtml (htmlContent ?acc)"
      using h by (simp add: parseMultipartMessage_def selectContent_def Let_def)
    have t: "?r = trim (collapseWhite (removeTags (htmlContent ?acc)))"
      unfolding r by (rule stripHtml_eq)
    have p1: "\<forall>a b. ?r = a @ 0x3C # b \<longrightarrow> 0x3E \<notin> set b"
      unfolding r by (intro allI impI) (rule tagFree_split[OF stripHtml_shape(1)])
    have p2: "\<forall>c\<in>set ?r. isWhiteSpace c \<longrightarrow> c = 0x20"
      unfolding r by (intro ballI impI) (rule collapsed_space[OF stripHtml_shape(2)])
    have p3: "\<forall>a x y b. ?r = a @ x # y # b \<longrightarrow> \<not> (isWhiteSpace x \<and> isWhiteSpace y)"
      unfolding r by (intro allI impI) (rule collapsed_split[OF stripHtml_shape(2)])
    have p4: "?r \<noteq> [] \<longrightarrow> \<not> isWhiteSpace (hd ?r) \<and> \<not> isWhiteSpace (last ?r)"
      unfolding t by (intro impI conjI) (rule trim_ends, assumption)+
    show "(\<forall>a b. ?r = a @ 0x3C # b \<longrightarrow> 0x3E \<notin> set b) \<and>
        (\<forall>c\<in>set ?r. isWhiteSpace c \<longrightarrow> c = 0x20) \<and>
        (\<forall>a x y b. ?r = a @ x # y # b \<longrightarrow> \<not> (isWhiteSpace x \<and> isWhiteSpace y)) \<and>
        (?r \<noteq> [] \<longrightarrow> \<not> isWhiteSpace (hd ?r) \<and> \<not> isWhiteSpace (last ?r))"
      by (rule conjI[OF p1 conjI[OF p2 conjI[OF p3 p4]]])
  qed
  show ?thesis
    by (rule conjI[OF sel conjI[OF e1 conjI[OF e2 conjI[OF e3 conjI[OF e4 conjI[OF e5 shape]]]]]])
qed

text \<open>
  A tag between two words: the code puts a space where the tag was, so the HTML part
  \<open>x<br>y\<close> is returned as \<open>x y\<close>, where removing the tag leaves \<open>xy\<close>. And a body whose
  parts end with a line break before the delimiter: the line break belongs to the content
  of the part, and the text/plain part \<open>Hello\<close> is returned with it.
\<close>

theorem parseMultipartMessage_preference_counterexample:
  "fst (parseMultipartMessage
      (js ''--b'' @ CRLF @ js ''Content-Type: text/html'' @ CRLFCRLF @ js ''x<br>y'' @
       js ''--b--'') (js ''b'')) = js ''x y''
   \<and> spec_stripHtml (js ''x<br>y'') = js ''xy''
   \<and> fst (parseMultipartMessage
      (js ''--b'' @ CRLF @ js ''Content-Type: text/plain'' @ CRLFCRLF @ js ''Hello'' @ CRLF @
       js ''--b'' @ CRLF @ js ''Content-Type: text/html'' @ CRLFCRLF @ js ''<p>Hi</p>'' @ CRLF @
       js ''--b--'' @ CRLF) (js ''b'')) = js ''Hello'' @ CRLF"
proof -
  let ?b = "js ''--b'' @ CRLF @ js ''Content-Type: text/html'' @ CRLFCRLF @ js ''x<br>y'' @
       js ''--b--''"
  let ?c = "js ''--b'' @ CRLF @ js ''Content-Type: text/plain'' @ CRLFCRLF @ js ''Hello'' @ CRLF @
       js ''--b'' @ CRLF @ js ''Content-Type: text/html'' @ CRLFCRLF @ js ''<p>Hi</p>'' @ CRLF @
       js ''--b--'' @ CRLF"
  have a: "multipartAccumulators ?b (js ''b'') =
      \<lparr>textContent = [], htmlContent = js ''x<br>y'', warnings = []\<rparr>"
    by (simp add: string_defs regex_defs multipart_defs decodeBody_def)
  have s: "stripHtml (js ''x<br>y'') = js ''x y''"
    by (simp add: string_defs regex_defs)
  have n: "js ''x<br>y'' \<noteq> []" "js ''Hello'' @ CRLF \<noteq> []" by (simp_all add: js_def)
  have r: "fst (parseMultipartMessage ?b (js ''b'')) = js ''x y''"
    unfolding parseMultipartMessage_def Let_def a using s n by (simp add: selectContent_def)
  have t: "spec_stripHtml (js ''x<br>y'') = js ''xy''"
    by (simp add: spec_stripHtml_def whiteRun_def string_defs)
  have c: "multipartAccumulators ?c (js ''b'') =
      \<lparr>textContent = js ''Hello'' @ CRLF, htmlContent = js ''<p>Hi</p>'' @ CRLF, warnings = []\<rparr>"
    by (simp add: string_defs regex_defs multipart_defs decodeBody_def)
  have u: "fst (parseMultipartMessage ?c (js ''b'')) = js ''Hello'' @ CRLF"
    unfolding parseMultipartMessage_def Let_def c using n by (simp add: selectContent_def)
  from r t u show ?thesis by blast
qed

text \<open>
  The three cases on bodies with boundary \<open>b\<close>: the plain part \<open>Hello\<close> with the HTML part
  \<open><p>Hi</p>\<close>, an HTML part alone, and a part of another type.
\<close>

theorem parseMultipartMessage_preference_witness:
  "fst (parseMultipartMessage
      (js ''--b'' @ CRLF @ js ''Content-Type: text/plain'' @ CRLFCRLF @ js ''Hello'' @
       js ''--b'' @ CRLF @ js ''Content-Type: text/html'' @ CRLFCRLF @ js ''<p>Hi</p>'' @
       js ''--b--'') (js ''b'')) = js ''Hello''
   \<and> fst (parseMultipartMessage
      (js ''--b'' @ CRLF @ js ''Content-Type: text/html'' @ CRLFCRLF @
       js ''<b>Bold</b>   text'' @ CRLF @ js ''--b--'' @ CRLF) (js ''b'')) = js ''Bold text''
   \<and> multipartAccumulators
      (js ''--b'' @ CRLF @ js ''Content-Type: text/html'' @ CRLFCRLF @
       js ''<b>Bold</b>   text'' @ CRLF @ js ''--b--'' @ CRLF) (js ''b'') =
      \<lparr>textContent = [], htmlContent = js ''<b>Bold</b>   text'' @ CRLF, warnings = []\<rparr>
   \<and> removeTags (js ''<b>Bold</b>   text'' @ CRLF) = js '' Bold    text'' @ CRLF
   \<and> collapseWhite (js '' Bold    text'' @ CRLF) = js '' Bold text ''
   \<and> fst (parseMultipartMessage
      (js ''--b'' @ CRLF @ js ''Content-Type: image/png'' @ CRLFCRLF @ js ''xyz'' @ CRLF @
       js ''--b--'' @ CRLF) (js ''b'')) = js ''No readable content found in the message.''"
proof -
  let ?b1 = "js ''--b'' @ CRLF @ js ''Content-Type: text/plain'' @ CRLFCRLF @ js ''Hello'' @
       js ''--b'' @ CRLF @ js ''Content-Type: text/html'' @ CRLFCRLF @ js ''<p>Hi</p>'' @
       js ''--b--''"
  let ?b2 = "js ''--b'' @ CRLF @ js ''Content-Type: text/html'' @ CRLFCRLF @
       js ''<b>Bold</b>   text'' @ CRLF @ js ''--b--'' @ CRLF"
  let ?b3 = "js ''--b'' @ CRLF @ js ''Content-Type: image/png'' @ CRLFCRLF @ js ''xyz'' @ CRLF @
       js ''--b--'' @ CRLF"
  have a1: "multipartAccumulators ?b1 (js ''b'') =
      \<lparr>textContent = js ''Hello'', htmlContent = js ''<p>Hi</p>'', warnings = []\<rparr>"
    by (simp add: string_defs regex_defs multipart_defs decodeBody_def)
  have a2: "multipartAccumulators ?b2 (js ''b'') =
      \<lparr>textContent = [], htmlContent = js ''<b>Bold</b>   text'' @ CRLF, warnings = []\<rparr>"
    by (simp add: string_defs regex_defs multipart_defs decodeBody_def)
  have a3: "multipartAccumulators ?b3 (js ''b'') =
      \<lparr>textContent = [], htmlContent = [], warnings = []\<rparr>"
    by (simp add: string_defs regex_defs multipart_defs decodeBody_def)
  have s1: "removeTags (js ''<b>Bold</b>   text'' @ CRLF) = js '' Bold    text'' @ CRLF"
    by (simp add: js_def CRLF_def)
  have s2: "collapseWhite (js '' Bold    text'' @ CRLF) = js '' Bold text ''"
    by (simp add: js_def CRLF_def isWhiteSpace_def isLineTerminator_def)
  have s3: "trim (js '' Bold text '') = js ''Bold text''"
    by (simp add: string_defs)
  have n1: "js ''Hello'' \<noteq> []" "js ''<b>Bold</b>   text'' @ CRLF \<noteq> []"
    by (simp_all add: string_defs)
  have r1: "fst (parseMultipartMessage ?b1 (js ''b'')) = js ''Hello''"
    using parseMultipartMessage_preference[of ?b1 "js ''b''", THEN conjunct1]
    by (simp only: a1 n1 Let_def accumulators.simps if_True if_False
          not_False_eq_True not_True_eq_False simp_thms)
  have r2: "fst (parseMultipartMessage ?b2 (js ''b'')) = js ''Bold text''"
    using parseMultipartMessage_preference[of ?b2 "js ''b''", THEN conjunct1]
    by (simp only: a2 s1 s2 s3 n1 Let_def accumulators.simps if_True if_False
          not_False_eq_True not_True_eq_False simp_thms)
  have r3: "fst (parseMultipartMessage ?b3 (js ''b'')) =
      js ''No readable content found in the message.''"
    using parseMultipartMessage_preference[of ?b3 "js ''b''", THEN conjunct1]
    by (simp only: a3 Let_def accumulators.simps if_True if_False
          not_False_eq_True not_True_eq_False simp_thms)
  from r1 r2 a2 s1 s2 r3 show ?thesis by blast
qed

section \<open>Facts about the string operations\<close>

lemma trim_Nil_iff: "trim s = [] \<longleftrightarrow> (\<forall>c\<in>set s. isWhiteSpace c)"
proof -
  have a: "dropWhile isWhiteSpace s = [] \<longleftrightarrow> (\<forall>c\<in>set s. isWhiteSpace c)"
    by (simp add: dropWhile_eq_Nil_conv)
  have b: "(\<forall>c\<in>set (dropWhile isWhiteSpace s). isWhiteSpace c) \<longleftrightarrow> dropWhile isWhiteSpace s = []"
  proof (cases "dropWhile isWhiteSpace s")
    case Nil
    show ?thesis unfolding Nil by simp
  next
    case (Cons x xs)
    then have "\<not> isWhiteSpace x"
      using hd_dropWhile[of isWhiteSpace s] by simp
    with Cons show ?thesis by auto
  qed
  have "trim s = [] \<longleftrightarrow> (\<forall>c\<in>set (dropWhile isWhiteSpace s). isWhiteSpace c)"
    by (simp add: trim_def dropWhile_eq_Nil_conv)
  with a b show ?thesis by simp
qed

lemma lowerUnit_idem: "lowerUnit (lowerUnit c) = lowerUnit c"
  by (simp add: lowerUnit_def)

lemma text_plain_lower: "toLowerCase (js ''text/plain'') = js ''text/plain''"
  by (simp add: string_defs)

lemma boundaryAt_token:
  assumes "boundaryAt s = Some b"
  shows "b \<noteq> [] \<and> (\<forall>c\<in>set b. c \<noteq> 0x22 \<and> c \<noteq> 0x3B \<and> \<not> isWhiteSpace c)"
proof -
  define P where "P = (\<lambda>x::nat. x \<noteq> 0x22 \<and> x \<noteq> 0x3B \<and> \<not> isWhiteSpace x)"
  define r where "r = (case drop 9 s of [] \<Rightarrow> drop 9 s | c # cs \<Rightarrow> if c = 0x22 then cs else drop 9 s)"
  have "boundaryAt s = None \<or> boundaryAt s = (if takeWhile P r = [] then None else Some (takeWhile P r))"
    unfolding boundaryAt_def Let_def P_def r_def by (simp only: if_split) simp
  with assms have b: "b = takeWhile P r" and ne: "b \<noteq> []"
    by (auto split: if_splits)
  have "\<forall>c\<in>set b. P c" unfolding b by (auto dest: set_takeWhileD)
  with ne show ?thesis unfolding P_def by simp
qed

lemma firstMatch_Some: "firstMatch m s = Some r \<Longrightarrow> \<exists>n. m (drop n s) = Some r"
proof (induction s)
  case Nil
  then show ?case by simp
next
  case (Cons c cs)
  show ?case
  proof (cases "m (c # cs)")
    case None
    with Cons obtain n where "m (drop n cs) = Some r" by auto
    then have "m (drop (Suc n) (c # cs)) = Some r" by simp
    then show ?thesis by blast
  next
    case (Some a)
    with Cons.prems have "m (drop 0 (c # cs)) = Some r" by simp
    then show ?thesis by blast
  qed
qed

lemma boundaryMatch_token:
  "boundaryMatch s = Some b \<Longrightarrow>
     b \<noteq> [] \<and> (\<forall>c\<in>set b. c \<noteq> 0x22 \<and> c \<noteq> 0x3B \<and> \<not> isWhiteSpace c)"
proof -
  assume "boundaryMatch s = Some b"
  then obtain n where "boundaryAt (drop n s) = Some b"
    unfolding boundaryMatch_def using firstMatch_Some[of boundaryAt s b] by blast
  then show ?thesis by (rule boundaryAt_token)
qed

section \<open>The content info of a header mapping\<close>

text \<open>
  C1, as the code has it. The boundary returned by \<open>getContentInfo\<close> is the first
  \<open>boundary=\<close> parameter of the Content-Type header, whatever the content type, and it
  is absent when the header is absent or empty or holds no such parameter. A boundary
  that is returned is a non-empty token without quotes, semicolons and whitespace.
\<close>

theorem getContentInfo_boundary:
  assumes "getContentInfo hs = Inr info"
  shows "boundary info =
           (case headerString hs (js ''Content-Type'') of
              Inr (Some ctHeader) \<Rightarrow> boundaryMatch ctHeader
            | _ \<Rightarrow> None)
         \<and> (\<forall>b. boundary info = Some b \<longrightarrow>
               b \<noteq> [] \<and> (\<forall>c\<in>set b. c \<noteq> 0x22 \<and> c \<noteq> 0x3B \<and> \<not> isWhiteSpace c))"
proof -
  have eq: "boundary info =
           (case headerString hs (js ''Content-Type'') of
              Inr (Some ctHeader) \<Rightarrow> boundaryMatch ctHeader
            | _ \<Rightarrow> None)"
    using assms by (auto simp: getContentInfo_def split: sum.splits option.splits)
  then have "\<forall>b. boundary info = Some b \<longrightarrow>
               b \<noteq> [] \<and> (\<forall>c\<in>set b. c \<noteq> 0x22 \<and> c \<noteq> 0x3B \<and> \<not> isWhiteSpace c)"
    using boundaryMatch_token by (auto split: sum.splits option.splits)
  with eq show ?thesis by blast
qed

text \<open>
  The header \<open>text/plain; boundary=abc\<close> gives a boundary although its content type
  does not start with \<open>multipart/\<close>.
\<close>

theorem getContentInfo_boundary_counterexample:
  "getContentInfo [js ''Content-Type'' \<mapsto> Single (js ''text/plain; boundary=abc'')] =
     Inr \<lparr>contentType = js ''text/plain'', encoding = js ''7bit'', boundary = Some (js ''abc'')\<rparr>
   \<and> \<not> startsWith (js ''text/plain'') (js ''multipart/'')"
proof -
  let ?hs = "[js ''Content-Type'' \<mapsto> Single (js ''text/plain; boundary=abc'')]"
  have h1: "headerString ?hs (js ''Content-Type'') = Inr (Some (js ''text/plain; boundary=abc''))"
    by (simp add: headerString_def js_def)
  have h2: "headerString ?hs (js ''Content-Transfer-Encoding'') = Inr None"
    by (simp add: headerString_def js_def)
  have t: "typeMatch (js ''text/plain; boundary=abc'') = Some (js ''text/plain'')"
    by (simp add: string_defs regex_defs)
  have l: "toLowerCase (trim (js ''text/plain'')) = js ''text/plain''"
    by (simp add: string_defs)
  have b: "boundaryMatch (js ''text/plain; boundary=abc'') = Some (js ''abc'')"
    by (simp add: string_defs regex_defs)
  have n: "\<not> startsWith (js ''text/plain'') (js ''multipart/'')"
    by (simp add: js_def)
  show ?thesis
    unfolding getContentInfo_def h1 h2 using t l b n by simp
qed

text \<open>The header \<open>multipart/mixed; boundary="abc123"\<close>.\<close>

theorem getContentInfo_boundary_witness:
  "getContentInfo [js ''Content-Type'' \<mapsto> Single (js ''multipart/mixed; boundary=\"abc123\"'')] =
     Inr \<lparr>contentType = js ''multipart/mixed'', encoding = js ''7bit'',
          boundary = Some (js ''abc123'')\<rparr>
   \<and> boundaryMatch (js ''multipart/mixed; boundary=\"abc123\"'') = Some (js ''abc123'')
   \<and> js ''abc123'' \<noteq> []"
proof -
  let ?hs = "[js ''Content-Type'' \<mapsto> Single (js ''multipart/mixed; boundary=\"abc123\"'')]"
  let ?info = "\<lparr>contentType = js ''multipart/mixed'', encoding = js ''7bit'',
          boundary = Some (js ''abc123'')\<rparr>"
  have h1: "headerString ?hs (js ''Content-Type'') =
      Inr (Some (js ''multipart/mixed; boundary=\"abc123\"''))"
    by (simp add: headerString_def js_def)
  have h2: "headerString ?hs (js ''Content-Transfer-Encoding'') = Inr None"
    by (simp add: headerString_def js_def)
  have t: "typeMatch (js ''multipart/mixed; boundary=\"abc123\"'') = Some (js ''multipart/mixed'')"
    by (simp add: string_defs regex_defs)
  have l: "toLowerCase (trim (js ''multipart/mixed'')) = js ''multipart/mixed''"
    by (simp add: string_defs)
  have b: "boundaryMatch (js ''multipart/mixed; boundary=\"abc123\"'') = Some (js ''abc123'')"
    by (simp add: string_defs regex_defs)
  have g: "getContentInfo ?hs = Inr ?info"
    unfolding getContentInfo_def h1 h2 using t l b by simp
  from getContentInfo_boundary[OF g] show ?thesis
    unfolding h1 using g b by simp
qed

lemma getContentInfo_contentType_eq:
  assumes "getContentInfo hs = Inr info"
  shows "contentType info =
     (case headerString hs (js ''Content-Type'') of
        Inr (Some s) \<Rightarrow> (case typeMatch s of None \<Rightarrow> js ''text/plain'' | Some m \<Rightarrow> toLowerCase (trim m))
      | _ \<Rightarrow> js ''text/plain'')"
  using assms by (auto simp: getContentInfo_def split: sum.splits option.splits)

lemma headerString_absent: "hs name = None \<Longrightarrow> headerString hs name = Inr None"
  by (simp add: headerString_def)

lemma codeUnits_type:
  assumes "codeUnits s" "typeMatch s = Some m"
  shows "codeUnits (trim m)"
proof -
  from assms(2) have "m = takeWhile (\<lambda>x. x \<noteq> 0x3B) s"
    by (auto simp: typeMatch_def Let_def split: if_splits)
  then have "set m \<subseteq> set s" by (auto dest: set_takeWhileD)
  moreover have "set (trim m) \<subseteq> set m"
    unfolding trim_def by (auto dest!: set_dropWhileD)
  ultimately show ?thesis using assms(1) unfolding codeUnits_def by blast
qed

lemma codeUnits_ascii: "codeUnits (js s)"
proof -
  have "of_char c < (0x10000 :: nat)" for c :: char
  proof -
    have "(of_char c :: nat) < 256" by simp
    then show ?thesis by linarith
  qed
  then show ?thesis by (auto simp: codeUnits_def js_def)
qed

text \<open>
  C9, as the code has it. The content type returned by \<open>getContentInfo\<close> is entirely
  lower-case: it holds no capital ASCII letter, it is the string of code points each of
  which is its own lower-case form and none of which is a capital sigma, and, the
  Content-Type header being a string of 16-bit code units, it is unchanged by
  \<open>toLowerCase\<close>. It is \<open>text/plain\<close> whenever the Content-Type header is absent, empty, or
  has nothing before its first semicolon; and it is empty exactly when the text before the
  first semicolon consists of whitespace only, so it is not always non-empty.
\<close>

theorem getContentInfo_contentType:
  assumes "getContentInfo hs = Inr info"
  shows "((\<forall>s. headerString hs (js ''Content-Type'') = Inr (Some s) \<longrightarrow> codeUnits s) \<longrightarrow>
            toLowerCase (contentType info) = contentType info)
       \<and> (\<exists>cps. contentType info = utf16Encode cps \<and>
                 (\<forall>d\<in>set cps. lowerPoint d = [d] \<and> d \<noteq> 0x3A3))
       \<and> (\<forall>c\<in>set (contentType info). \<not> (0x41 \<le> c \<and> c \<le> 0x5A))
       \<and> (hs (js ''Content-Type'') = None \<longrightarrow> contentType info = js ''text/plain'')
       \<and> (headerString hs (js ''Content-Type'') = Inr None \<longrightarrow> contentType info = js ''text/plain'')
       \<and> (\<forall>s. headerString hs (js ''Content-Type'') = Inr (Some s) \<and> typeMatch s = None \<longrightarrow>
              contentType info = js ''text/plain'')
       \<and> (contentType info = [] \<longleftrightarrow>
             (\<exists>s m. headerString hs (js ''Content-Type'') = Inr (Some s) \<and> typeMatch s = Some m \<and>
                    (\<forall>c\<in>set m. isWhiteSpace c)))"
proof -
  note eq = getContentInfo_contentType_eq[OF assms]
  have ne: "js ''text/plain'' \<noteq> []" by (simp add: js_def)
  have form: "\<exists>x. contentType info = toLowerCase x \<and>
      ((\<forall>s. headerString hs (js ''Content-Type'') = Inr (Some s) \<longrightarrow> codeUnits s) \<longrightarrow> codeUnits x)"
  proof (cases "headerString hs (js ''Content-Type'')")
    case (Inl e)
    then have "contentType info = toLowerCase (js ''text/plain'')"
      unfolding eq by (simp add: text_plain_lower)
    then show ?thesis using codeUnits_ascii by blast
  next
    case (Inr ov)
    show ?thesis
    proof (cases ov)
      case None
      with Inr have "contentType info = toLowerCase (js ''text/plain'')"
        unfolding eq by (simp add: text_plain_lower)
      then show ?thesis using codeUnits_ascii by blast
    next
      case (Some s)
      show ?thesis
      proof (cases "typeMatch s")
        case None
        with Inr Some have "contentType info = toLowerCase (js ''text/plain'')"
          unfolding eq by (simp add: text_plain_lower)
        then show ?thesis using codeUnits_ascii by blast
      next
        case (Some m)
        with Inr \<open>ov = Some s\<close> have "contentType info = toLowerCase (trim m)"
          unfolding eq by simp
        moreover have "codeUnits s \<Longrightarrow> codeUnits (trim m)"
          using codeUnits_type[OF _ Some] .
        ultimately show ?thesis using Inr \<open>ov = Some s\<close> by blast
      qed
    qed
  qed
  then obtain x where x: "contentType info = toLowerCase x"
    and cu: "(\<forall>s. headerString hs (js ''Content-Type'') = Inr (Some s) \<longrightarrow> codeUnits s) \<longrightarrow> codeUnits x"
    by blast
  have lower: "(\<forall>s. headerString hs (js ''Content-Type'') = Inr (Some s) \<longrightarrow> codeUnits s) \<longrightarrow>
      toLowerCase (contentType info) = contentType info"
    unfolding x using cu toLowerCase_idem by blast
  have points: "\<exists>cps. contentType info = utf16Encode cps \<and>
                 (\<forall>d\<in>set cps. lowerPoint d = [d] \<and> d \<noteq> 0x3A3)"
    unfolding x by (rule toLowerCase_points)
  have caps: "\<forall>c\<in>set (contentType info). \<not> (0x41 \<le> c \<and> c \<le> 0x5A)"
    unfolding x using toLowerCase_no_capital by blast
  have absent: "hs (js ''Content-Type'') = None \<longrightarrow> contentType info = js ''text/plain''"
    unfolding eq by (simp add: headerString_absent)
  have falsy: "headerString hs (js ''Content-Type'') = Inr None \<longrightarrow> contentType info = js ''text/plain''"
    unfolding eq by simp
  have unparseable: "\<forall>s. headerString hs (js ''Content-Type'') = Inr (Some s) \<and> typeMatch s = None \<longrightarrow>
              contentType info = js ''text/plain''"
    unfolding eq by simp
  have empty: "contentType info = [] \<longleftrightarrow>
             (\<exists>s m. headerString hs (js ''Content-Type'') = Inr (Some s) \<and> typeMatch s = Some m \<and>
                    (\<forall>c\<in>set m. isWhiteSpace c))"
    unfolding eq using ne
    by (auto simp: toLowerCase_Nil_iff trim_Nil_iff split: sum.splits option.splits)
  from lower points caps absent falsy unparseable empty show ?thesis by blast
qed

text \<open>
  A Content-Type header that is a single space is truthy and matches \<open>/^([^;]+)/\<close>;
  trimming the match leaves the empty content type.
\<close>

theorem getContentInfo_contentType_counterexample:
  "getContentInfo [js ''Content-Type'' \<mapsto> Single (js '' '')] =
     Inr \<lparr>contentType = [], encoding = js ''7bit'', boundary = None\<rparr>"
proof -
  let ?hs = "[js ''Content-Type'' \<mapsto> Single (js '' '')]"
  have h1: "headerString ?hs (js ''Content-Type'') = Inr (Some (js '' ''))"
    by (simp add: headerString_def js_def)
  have h2: "headerString ?hs (js ''Content-Transfer-Encoding'') = Inr None"
    by (simp add: headerString_def js_def)
  have t: "typeMatch (js '' '') = Some (js '' '')"
    by (simp add: string_defs regex_defs)
  have l: "toLowerCase (trim (js '' '')) = []"
    by (simp add: string_defs)
  have b: "boundaryMatch (js '' '') = None"
    by (simp add: string_defs regex_defs)
  show ?thesis
    unfolding getContentInfo_def h1 h2 using t l b by simp
qed

text \<open>
  The header \<open>TEXT/\<close> followed by a capital E with acute accent (\<open>0xC9\<close>) and a parameter,
  whose content type is \<open>text/\<close> followed by the small e with acute accent (\<open>0xE9\<close>); no
  header at all; and a header that starts with a semicolon.
\<close>

theorem getContentInfo_contentType_witness:
  "getContentInfo [js ''Content-Type'' \<mapsto> Single (js ''TEXT/'' @ 0xC9 # js ''; charset=UTF-8'')] =
     Inr \<lparr>contentType = js ''text/'' @ [0xE9], encoding = js ''7bit'', boundary = None\<rparr>
   \<and> codeUnits (js ''TEXT/'' @ 0xC9 # js ''; charset=UTF-8'')
   \<and> toLowerCase (js ''text/'' @ [0xE9]) = js ''text/'' @ [0xE9]
   \<and> getContentInfo Map.empty =
     Inr \<lparr>contentType = js ''text/plain'', encoding = js ''7bit'', boundary = None\<rparr>
   \<and> getContentInfo [js ''Content-Type'' \<mapsto> Single (js '';charset=UTF-8'')] =
     Inr \<lparr>contentType = js ''text/plain'', encoding = js ''7bit'', boundary = None\<rparr>"
proof -
  let ?h = "js ''TEXT/'' @ 0xC9 # js ''; charset=UTF-8''"
  let ?hs = "[js ''Content-Type'' \<mapsto> Single ?h]"
  let ?info = "\<lparr>contentType = js ''text/'' @ [0xE9], encoding = js ''7bit'', boundary = None\<rparr>"
  have h1: "headerString ?hs (js ''Content-Type'') = Inr (Some ?h)"
    by (simp add: headerString_def js_def)
  have h2: "headerString ?hs (js ''Content-Transfer-Encoding'') = Inr None"
    by (simp add: headerString_def js_def)
  have t: "typeMatch ?h = Some (js ''TEXT/'' @ [0xC9])"
    by (simp add: string_defs regex_defs)
  have tr: "trim (js ''TEXT/'' @ [0xC9]) = js ''TEXT/'' @ [0xC9]"
    by (simp add: string_defs)
  have p: "lowerPoint 0xC9 = [0xE9]"
    by (simp add: lowerPoint_def lowerRules_def)
  have l: "toLowerCase (js ''TEXT/'' @ [0xC9]) = js ''text/'' @ [0xE9]"
    by (simp add: toLowerCase_def js_def lowerAt_def lowerPoint_ascii lowerUnit_def p
        isHighSurrogate_def)
  have b: "boundaryMatch ?h = None"
    by (simp add: string_defs regex_defs)
  have cu: "codeUnits ?h" by (simp add: codeUnits_def js_def)
  have g1: "getContentInfo ?hs = Inr ?info"
    unfolding getContentInfo_def h1 h2 using t tr l b by simp
  have g2: "getContentInfo Map.empty =
     Inr \<lparr>contentType = js ''text/plain'', encoding = js ''7bit'', boundary = None\<rparr>"
    by (simp add: getContentInfo_def headerString_def)
  let ?hs3 = "[js ''Content-Type'' \<mapsto> Single (js '';charset=UTF-8'')]"
  have k1: "headerString ?hs3 (js ''Content-Type'') = Inr (Some (js '';charset=UTF-8''))"
    by (simp add: headerString_def js_def)
  have k2: "headerString ?hs3 (js ''Content-Transfer-Encoding'') = Inr None"
    by (simp add: headerString_def js_def)
  have kt: "typeMatch (js '';charset=UTF-8'') = None"
    by (simp add: string_defs regex_defs)
  have kb: "boundaryMatch (js '';charset=UTF-8'') = None"
    by (simp add: string_defs regex_defs)
  have g3: "getContentInfo ?hs3 =
     Inr \<lparr>contentType = js ''text/plain'', encoding = js ''7bit'', boundary = None\<rparr>"
    unfolding getContentInfo_def k1 k2 using kt kb by simp
  from getContentInfo_contentType[OF g1] cu have "toLowerCase (js ''text/'' @ [0xE9]) = js ''text/'' @ [0xE9]"
    unfolding h1 by simp
  with g1 g2 g3 cu show ?thesis by simp
qed

section \<open>The loop of \<open>parseMultipartMessage\<close>\<close>

lemma processPart_skipped: "skipped part \<Longrightarrow> processPart part acc = acc"
  by (auto simp: skipped_def processPart_def split: list.splits)

lemma processPart_kept: "\<not> skipped part \<Longrightarrow> processPart part acc = handlePart acc part"
  by (auto simp: skipped_def processPart_def handlePart_def split: list.splits)

lemma processParts_filter:
  "processParts parts acc = foldl handlePart acc (filter (\<lambda>part. \<not> skipped part) parts)"
proof (induction parts arbitrary: acc)
  case Nil
  show ?case by simp
next
  case (Cons part parts)
  show ?case
  proof (cases "skipped part")
    case True
    then show ?thesis by (simp add: processPart_skipped Cons.IH)
  next
    case False
    then show ?thesis by (simp add: processPart_kept Cons.IH)
  qed
qed

lemma processParts_append:
  "processParts (xs @ ys) acc = processParts ys (processParts xs acc)"
  by (induction xs arbitrary: acc) simp_all

lemma handlePart_kept:
  assumes "\<not> skipped part"
  shows "handlePart acc part =
    (let acc' = acc\<lparr>warnings := warnings acc @ snd (decodeBody (js_join CRLFCRLF (tl (js_split part CRLFCRLF)))
            (Some (orDefault (partHeaders part (js ''Content-Transfer-Encoding'')) (js ''7bit''))))\<rparr>
     in if js_includes (partType part) (js ''text/plain'') then acc'\<lparr>textContent := partDecoded part\<rparr>
        else if js_includes (partType part) (js ''text/html'') then acc'\<lparr>htmlContent := partDecoded part\<rparr>
        else acc')"
proof -
  from assms obtain h cs where s: "js_split part CRLFCRLF = h # cs"
    by (cases "js_split part CRLFCRLF") (auto simp: skipped_def)
  show ?thesis
    by (simp add: handlePart_def s storePart_def partType_def partDecoded_def partHeaders_def Let_def)
qed

lemma text_plain: "plainPart part \<Longrightarrow> textContent (processPart part acc) = partDecoded part"
  by (simp add: plainPart_def processPart_kept handlePart_kept Let_def)

lemma text_other: "\<not> plainPart part \<Longrightarrow> textContent (processPart part acc) = textContent acc"
  by (cases "skipped part")
     (simp_all add: plainPart_def processPart_skipped processPart_kept handlePart_kept Let_def)

lemma html_html: "htmlPart part \<Longrightarrow> htmlContent (processPart part acc) = partDecoded part"
  by (simp add: htmlPart_def processPart_kept handlePart_kept Let_def)

lemma html_other: "\<not> htmlPart part \<Longrightarrow> htmlContent (processPart part acc) = htmlContent acc"
  by (cases "skipped part")
     (auto simp: htmlPart_def processPart_skipped processPart_kept handlePart_kept Let_def)

lemma text_kept: "\<forall>q\<in>set qs. \<not> plainPart q \<Longrightarrow> textContent (processParts qs acc) = textContent acc"
  by (induction qs arbitrary: acc) (simp_all add: text_other)

lemma html_kept: "\<forall>q\<in>set qs. \<not> htmlPart q \<Longrightarrow> htmlContent (processParts qs acc) = htmlContent acc"
  by (induction qs arbitrary: acc) (simp_all add: html_other)

text \<open>
  C6, as the code has it. A part is a fragment that is not passed over; it is a text/plain
  part when its content type contains \<open>text/plain\<close>, and a text/html part when its
  content type contains \<open>text/html\<close> and does not contain \<open>text/plain\<close>. Each part
  overwrites the accumulator of its type: after the loop the text/plain accumulator is the
  decoded content of the last text/plain part and the text/html accumulator that of the
  last text/html part, whatever came before and whatever the accumulators held. A fragment
  that is passed over, and a part whose content type contains both strings, leave the
  text/html accumulator as it was.
\<close>

theorem last_part_wins:
  "(plainPart p \<and> (\<forall>q\<in>set qs. \<not> plainPart q) \<longrightarrow>
      textContent (processParts (ps @ p # qs) acc) = partDecoded p) \<and>
   (htmlPart p \<and> (\<forall>q\<in>set qs. \<not> htmlPart q) \<longrightarrow>
      htmlContent (processParts (ps @ p # qs) acc) = partDecoded p)"
  by (simp add: processParts_append text_kept html_kept text_plain html_html)

text \<open>
  C3, as the code has it. \<open>parseMultipartMessage\<close> passes over exactly the fragments
  that are empty after trimming, that contain two hyphens anywhere, or that lack the
  CRLF CRLF separator; every other fragment, the first one included, is header-parsed,
  decoded and classified.
\<close>

theorem parseMultipartMessage_fragments:
  "multipartAccumulators body bnd =
     foldl handlePart noContent
       (filter (\<lambda>part. \<not> skipped part) (js_split body (js ''--'' @ bnd)))
   \<and> (\<forall>part acc. skipped part \<longrightarrow> processPart part acc = acc)
   \<and> (\<forall>part acc. \<not> skipped part \<longrightarrow> processPart part acc = handlePart acc part)"
  by (simp add: multipartAccumulators_def processParts_filter noContent_def
        processPart_skipped processPart_kept)

text \<open>
  With boundary \<open>XX\<close>, the first fragment of this body has a separator and no hyphens:
  the code takes it for a text/plain part, where a splitter that always passes over the
  preamble finds nothing to read.
\<close>

theorem parseMultipartMessage_fragments_counterexample:
  "fst (parseMultipartMessage (js ''A: b'' @ CRLFCRLF @ js ''intro--XX--'') (js ''XX'')) = js ''intro''
   \<and> selectContent (spec_multipartAccumulators (js ''A: b'' @ CRLFCRLF @ js ''intro--XX--'') (js ''XX''))
       = js ''No readable content found in the message.''"
proof -
  let ?body = "js ''A: b'' @ CRLFCRLF @ js ''intro--XX--''"
  have f: "js_split ?body (js ''--'' @ js ''XX'') = [js ''A: b'' @ CRLFCRLF @ js ''intro'', js ''--'']"
    by (simp add: string_defs)
  have p0: "processPart (js ''A: b'' @ CRLFCRLF @ js ''intro'') noContent =
      \<lparr>textContent = js ''intro'', htmlContent = [], warnings = []\<rparr>"
    by (simp add: string_defs regex_defs multipart_defs decodeBody_def noContent_def)
  have p1: "processPart (js ''--'') acc = acc" for acc
    by (simp add: string_defs processPart_def)
  have s1: "skipped (js ''--'')"
    by (simp add: string_defs skipped_def)
  have code: "multipartAccumulators ?body (js ''XX'') =
      \<lparr>textContent = js ''intro'', htmlContent = [], warnings = []\<rparr>"
    unfolding multipartAccumulators_def f using p0 p1 by (simp add: noContent_def)
  have spec: "spec_multipartAccumulators ?body (js ''XX'') = noContent"
    unfolding spec_multipartAccumulators_def f using s1 by simp
  have ne: "js ''intro'' \<noteq> []" by (simp add: js_def)
  show ?thesis
    unfolding parseMultipartMessage_def Let_def code spec
    using ne by (simp add: selectContent_def noContent_def noReadableContent_def)
qed

text \<open>A body whose preamble has no separator, with one part and the closing delimiter.\<close>

theorem parseMultipartMessage_fragments_witness:
  "multipartAccumulators
      (js ''preamble'' @ CRLF @ js ''--b'' @ CRLF @ js ''Content-Type: text/plain'' @ CRLFCRLF @
       js ''Hello'' @ CRLF @ js ''--b--'' @ CRLF) (js ''b'') =
     \<lparr>textContent = js ''Hello'' @ CRLF, htmlContent = [], warnings = []\<rparr>
   \<and> skipped (js ''preamble'' @ CRLF) \<and> skipped (js ''--'' @ CRLF)
   \<and> \<not> skipped (CRLF @ js ''Content-Type: text/plain'' @ CRLFCRLF @ js ''Hello'' @ CRLF)"
proof -
  let ?body = "js ''preamble'' @ CRLF @ js ''--b'' @ CRLF @ js ''Content-Type: text/plain'' @ CRLFCRLF @
       js ''Hello'' @ CRLF @ js ''--b--'' @ CRLF"
  let ?part = "CRLF @ js ''Content-Type: text/plain'' @ CRLFCRLF @ js ''Hello'' @ CRLF"
  have f: "js_split ?body (js ''--'' @ js ''b'') = [js ''preamble'' @ CRLF, ?part, js ''--'' @ CRLF]"
    by (simp add: string_defs)
  have s0: "skipped (js ''preamble'' @ CRLF)"
    by (simp add: string_defs skipped_def)
  have s1: "\<not> skipped ?part"
    by (simp add: string_defs skipped_def)
  have s2: "skipped (js ''--'' @ CRLF)"
    by (simp add: string_defs skipped_def)
  have h: "handlePart noContent ?part =
      \<lparr>textContent = js ''Hello'' @ CRLF, htmlContent = [], warnings = []\<rparr>"
    by (simp add: handlePart_def string_defs regex_defs multipart_defs decodeBody_def noContent_def)
  from parseMultipartMessage_fragments[of ?body "js ''b''"] show ?thesis
    unfolding f using s0 s1 s2 h by simp
qed

text \<open>
  Two bodies with boundary \<open>b\<close>. In the first, both parts have a content type that
  contains \<open>text/html\<close>; the type of the second contains \<open>text/plain\<close> as well, so its
  content goes to the text/plain accumulator and the text/html accumulator keeps the
  content of the first part. In the second, both parts are text/plain; the second holds a
  signature line that starts with two hyphens, so it is passed over and the first part
  stays in the accumulator.
\<close>

theorem last_part_wins_counterexample:
  "js_split (js ''--b'' @ CRLF @ js ''Content-Type: text/html'' @ CRLFCRLF @ js ''<p>one</p>'' @
             js ''--b'' @ CRLF @ js ''Content-Type: text/html; x=text/plain'' @ CRLFCRLF @ js ''two'' @
             js ''--b--'') (js ''--'' @ js ''b'') =
     [[], CRLF @ js ''Content-Type: text/html'' @ CRLFCRLF @ js ''<p>one</p>'',
      CRLF @ js ''Content-Type: text/html; x=text/plain'' @ CRLFCRLF @ js ''two'', js ''--'']
   \<and> js_includes (partType (CRLF @ js ''Content-Type: text/html'' @ CRLFCRLF @ js ''<p>one</p>''))
        (js ''text/html'')
   \<and> js_includes (partType (CRLF @ js ''Content-Type: text/html; x=text/plain'' @ CRLFCRLF @ js ''two''))
        (js ''text/html'')
   \<and> partDecoded (CRLF @ js ''Content-Type: text/html; x=text/plain'' @ CRLFCRLF @ js ''two'') = js ''two''
   \<and> multipartAccumulators
        (js ''--b'' @ CRLF @ js ''Content-Type: text/html'' @ CRLFCRLF @ js ''<p>one</p>'' @
         js ''--b'' @ CRLF @ js ''Content-Type: text/html; x=text/plain'' @ CRLFCRLF @ js ''two'' @
         js ''--b--'') (js ''b'') =
       \<lparr>textContent = js ''two'', htmlContent = js ''<p>one</p>'', warnings = []\<rparr>
   \<and> js_split (js ''--b'' @ CRLF @ js ''Content-Type: text/plain'' @ CRLFCRLF @ js ''first'' @
             js ''--b'' @ CRLF @ js ''Content-Type: text/plain'' @ CRLFCRLF @ js ''second'' @ CRLF @
             js ''-- '' @ CRLF @ js ''sig'' @ js ''--b--'') (js ''--'' @ js ''b'') =
     [[], CRLF @ js ''Content-Type: text/plain'' @ CRLFCRLF @ js ''first'',
      CRLF @ js ''Content-Type: text/plain'' @ CRLFCRLF @ js ''second'' @ CRLF @
        js ''-- '' @ CRLF @ js ''sig'', js ''--'']
   \<and> js_includes (partType (CRLF @ js ''Content-Type: text/plain'' @ CRLFCRLF @ js ''second'' @ CRLF @
        js ''-- '' @ CRLF @ js ''sig'')) (js ''text/plain'')
   \<and> multipartAccumulators
        (js ''--b'' @ CRLF @ js ''Content-Type: text/plain'' @ CRLFCRLF @ js ''first'' @
         js ''--b'' @ CRLF @ js ''Content-Type: text/plain'' @ CRLFCRLF @ js ''second'' @ CRLF @
         js ''-- '' @ CRLF @ js ''sig'' @ js ''--b--'') (js ''b'') =
       \<lparr>textContent = js ''first'', htmlContent = [], warnings = []\<rparr>"
proof -
  let ?p1 = "CRLF @ js ''Content-Type: text/html'' @ CRLFCRLF @ js ''<p>one</p>''"
  let ?p2 = "CRLF @ js ''Content-Type: text/html; x=text/plain'' @ CRLFCRLF @ js ''two''"
  let ?q1 = "CRLF @ js ''Content-Type: text/plain'' @ CRLFCRLF @ js ''first''"
  let ?q2 = "CRLF @ js ''Content-Type: text/plain'' @ CRLFCRLF @ js ''second'' @ CRLF @
        js ''-- '' @ CRLF @ js ''sig''"
  let ?body1 = "js ''--b'' @ CRLF @ js ''Content-Type: text/html'' @ CRLFCRLF @ js ''<p>one</p>'' @
             js ''--b'' @ CRLF @ js ''Content-Type: text/html; x=text/plain'' @ CRLFCRLF @ js ''two'' @
             js ''--b--''"
  let ?body2 = "js ''--b'' @ CRLF @ js ''Content-Type: text/plain'' @ CRLFCRLF @ js ''first'' @
             js ''--b'' @ CRLF @ js ''Content-Type: text/plain'' @ CRLFCRLF @ js ''second'' @ CRLF @
             js ''-- '' @ CRLF @ js ''sig'' @ js ''--b--''"
  have f1: "js_split ?body1 (js ''--'' @ js ''b'') = [[], ?p1, ?p2, js ''--'']"
    by (simp add: string_defs)
  have f2: "js_split ?body2 (js ''--'' @ js ''b'') = [[], ?q1, ?q2, js ''--'']"
    by (simp add: string_defs)
  have t1: "partType ?p1 = js ''text/html''"
    by (simp add: partType_def partHeaders_def string_defs regex_defs orDefault_def)
  have t2: "partType ?p2 = js ''text/html; x=text/plain''"
    by (simp add: partType_def partHeaders_def string_defs regex_defs orDefault_def)
  have t3: "partType ?q2 = js ''text/plain''"
    by (simp add: partType_def partHeaders_def string_defs regex_defs orDefault_def)
  have i1: "js_includes (js ''text/html'') (js ''text/html'')" by (simp add: js_def)
  have i2: "js_includes (js ''text/html; x=text/plain'') (js ''text/html'')" by (simp add: js_def)
  have i3: "js_includes (js ''text/plain'') (js ''text/plain'')" by (simp add: js_def)
  have d2: "partDecoded ?p2 = js ''two''"
    by (simp add: partDecoded_def partHeaders_def string_defs regex_defs orDefault_def decodeBody_def)
  have e0: "processPart [] acc = acc" for acc
    by (simp add: string_defs processPart_def)
  have e9: "processPart (js ''--'') acc = acc" for acc
    by (simp add: string_defs processPart_def)
  have a1: "processPart ?p1 \<lparr>textContent = [], htmlContent = [], warnings = []\<rparr> =
      \<lparr>textContent = [], htmlContent = js ''<p>one</p>'', warnings = []\<rparr>"
    by (simp add: string_defs regex_defs multipart_defs decodeBody_def)
  have a2: "processPart ?p2 \<lparr>textContent = [], htmlContent = js ''<p>one</p>'', warnings = []\<rparr> =
      \<lparr>textContent = js ''two'', htmlContent = js ''<p>one</p>'', warnings = []\<rparr>"
    by (simp add: string_defs regex_defs multipart_defs decodeBody_def)
  have b1: "processPart ?q1 \<lparr>textContent = [], htmlContent = [], warnings = []\<rparr> =
      \<lparr>textContent = js ''first'', htmlContent = [], warnings = []\<rparr>"
    by (simp add: string_defs regex_defs multipart_defs decodeBody_def)
  have b2: "processPart ?q2 acc = acc" for acc
    by (simp add: string_defs processPart_def)
  have m1: "multipartAccumulators ?body1 (js ''b'') =
      \<lparr>textContent = js ''two'', htmlContent = js ''<p>one</p>'', warnings = []\<rparr>"
    unfolding multipartAccumulators_def f1 by (simp add: e0 e9 a1 a2)
  have m2: "multipartAccumulators ?body2 (js ''b'') =
      \<lparr>textContent = js ''first'', htmlContent = [], warnings = []\<rparr>"
    unfolding multipartAccumulators_def f2 by (simp add: e0 e9 b1 b2)
  have c1: "js_includes (partType ?p1) (js ''text/html'')" unfolding t1 by (rule i1)
  have c2: "js_includes (partType ?p2) (js ''text/html'')" unfolding t2 by (rule i2)
  have c3: "js_includes (partType ?q2) (js ''text/plain'')" unfolding t3 by (rule i3)
  show ?thesis
    by (rule conjI[OF f1 conjI[OF c1 conjI[OF c2 conjI[OF d2 conjI[OF m1 conjI[OF f2 conjI[OF c3 m2]]]]]]])
qed

text \<open>Two text/plain parts followed by a text/html part: the second plain part is kept.\<close>

theorem last_part_wins_witness:
  "plainPart (CRLF @ js ''Content-Type: text/plain'' @ CRLFCRLF @ js ''two'')
   \<and> \<not> plainPart (CRLF @ js ''Content-Type: text/html'' @ CRLFCRLF @ js ''<i>three</i>'')
   \<and> htmlPart (CRLF @ js ''Content-Type: text/html'' @ CRLFCRLF @ js ''<i>three</i>'')
   \<and> textContent (processParts
         [CRLF @ js ''Content-Type: text/plain'' @ CRLFCRLF @ js ''one'',
          CRLF @ js ''Content-Type: text/plain'' @ CRLFCRLF @ js ''two'',
          CRLF @ js ''Content-Type: text/html'' @ CRLFCRLF @ js ''<i>three</i>''] noContent)
       = js ''two''
   \<and> htmlContent (processParts
         [CRLF @ js ''Content-Type: text/plain'' @ CRLFCRLF @ js ''one'',
          CRLF @ js ''Content-Type: text/plain'' @ CRLFCRLF @ js ''two'',
          CRLF @ js ''Content-Type: text/html'' @ CRLFCRLF @ js ''<i>three</i>''] noContent)
       = js ''<i>three</i>''"
proof -
  let ?p1 = "CRLF @ js ''Content-Type: text/plain'' @ CRLFCRLF @ js ''one''"
  let ?p2 = "CRLF @ js ''Content-Type: text/plain'' @ CRLFCRLF @ js ''two''"
  let ?p3 = "CRLF @ js ''Content-Type: text/html'' @ CRLFCRLF @ js ''<i>three</i>''"
  have s2: "\<not> skipped ?p2" by (simp add: string_defs skipped_def)
  have s3: "\<not> skipped ?p3" by (simp add: string_defs skipped_def)
  have t2: "partType ?p2 = js ''text/plain''"
    by (simp add: partType_def partHeaders_def string_defs regex_defs orDefault_def)
  have t3: "partType ?p3 = js ''text/html''"
    by (simp add: partType_def partHeaders_def string_defs regex_defs orDefault_def)
  have d2: "partDecoded ?p2 = js ''two''"
    by (simp add: partDecoded_def partHeaders_def string_defs regex_defs orDefault_def decodeBody_def)
  have d3: "partDecoded ?p3 = js ''<i>three</i>''"
    by (simp add: partDecoded_def partHeaders_def string_defs regex_defs orDefault_def decodeBody_def)
  have i1: "js_includes (js ''text/plain'') (js ''text/plain'')" by (simp add: js_def)
  have i2: "\<not> js_includes (js ''text/html'') (js ''text/plain'')" by (simp add: js_def)
  have i3: "js_includes (js ''text/html'') (js ''text/html'')" by (simp add: js_def)
  have k2: "plainPart ?p2" unfolding plainPart_def t2 using s2 i1 by simp
  have k3: "\<not> plainPart ?p3" unfolding plainPart_def t3 using i2 by simp
  have h3: "htmlPart ?p3" unfolding htmlPart_def t3 using s3 i2 i3 by simp
  from last_part_wins[of ?p2 "[?p3]" "[?p1]" noContent]
       last_part_wins[of ?p3 "[]" "[?p1, ?p2]" noContent]
  show ?thesis using k2 k3 h3 d2 d3 by simp
qed


section \<open>Quoted-printable\<close>

lemma replaceAll_softBreak: "replaceAll softBreak s = removeSoftBreaks s"
  by (induction s rule: removeSoftBreaks.induct) (auto simp: softBreak_def)

lemma replaceAll_hexEscape: "replaceAll hexEscape s = replaceEscapes s"
  by (induction s rule: replaceEscapes.induct) auto

lemma not_hex_equals: "\<not> isUpperHex 0x3D"
  by (simp add: isUpperHex_def)

lemma replaceEscapes_escape:
  "isUpperHex x \<Longrightarrow> isUpperHex y \<Longrightarrow>
   replaceEscapes (a @ [0x3D, x, y] @ b) =
     replaceEscapes a @ [hexValue x * 16 + hexValue y] @ replaceEscapes b"
  by (induction a rule: replaceEscapes.induct) (auto simp: not_hex_equals)

lemma removeSoftBreaks_break:
  "removeSoftBreaks (a @ [0x3D, 0x0D, 0x0A] @ b) = removeSoftBreaks a @ removeSoftBreaks b"
  by (induction a rule: removeSoftBreaks.induct) auto

lemma removeSoftBreaks_pass:
  "x \<noteq> 0x3D \<Longrightarrow> y \<noteq> 0x3D \<Longrightarrow> removeSoftBreaks (x # y # b) = x # y # removeSoftBreaks b"
  by (cases b rule: removeSoftBreaks.cases) auto

lemma removeSoftBreaks_escape:
  assumes "isUpperHex x" "isUpperHex y"
  shows "removeSoftBreaks (a @ [0x3D, x, y] @ b) =
     removeSoftBreaks a @ [0x3D, x, y] @ removeSoftBreaks b"
proof -
  have ne: "x \<noteq> 0x0D" "x \<noteq> 0x3D" "y \<noteq> 0x3D"
    using assms by (auto simp: isUpperHex_def)
  show ?thesis
    by (induction a rule: removeSoftBreaks.induct)
       (auto simp: ne removeSoftBreaks_pass[OF ne(2,3)])
qed

lemma hex_byte: "isUpperHex x \<Longrightarrow> isUpperHex y \<Longrightarrow> hexValue x * 16 + hexValue y < 256"
  by (auto simp: isUpperHex_def hexValue_def)

lemma decodeBody_qp:
  assumes "toLowerCase e = js ''quoted-printable''"
  shows "decodeBody s (Some e) = (replaceEscapes (removeSoftBreaks s), [])"
proof -
  have ne: "e \<noteq> []" using assms toLowerCase_Nil_iff[of e] by (auto simp: js_def)
  have nb: "toLowerCase e \<noteq> js ''base64''" unfolding assms by (simp add: js_def)
  show ?thesis
    using ne nb assms
    by (simp add: decodeBody_def decodeQuotedPrintable_def replaceAll_softBreak replaceAll_hexEscape)
qed

text \<open>
  C4, as the code has it. For every input string, \<open>decodeBody\<close> with the encoding
  quoted-printable (in any case) removes every \<open>=\<close> that is immediately followed by
  CR LF, together with that CR LF, and then replaces each \<open>=XX\<close> escape whose two digits
  are among \<open>0-9\<close> and the upper-case \<open>A-F\<close> by the single character with that byte
  value; this holds for every such soft line break and every such escape, wherever it
  stands in the string.
\<close>

theorem decodeBody_quotedPrintable:
  assumes "toLowerCase e = js ''quoted-printable''"
  shows "decodeBody s (Some e) = (replaceEscapes (removeSoftBreaks s), [])
     \<and> (\<forall>a b. removeSoftBreaks (a @ [0x3D, 0x0D, 0x0A] @ b) =
                removeSoftBreaks a @ removeSoftBreaks b)
     \<and> (\<forall>a b x y. isUpperHex x \<and> isUpperHex y \<longrightarrow>
           hexValue x * 16 + hexValue y < 256 \<and>
           fst (decodeBody (a @ [0x3D, x, y] @ b) (Some e)) =
             fst (decodeBody a (Some e)) @ [hexValue x * 16 + hexValue y] @
             fst (decodeBody b (Some e)))"
proof -
  have esc: "fst (decodeBody (a @ [0x3D, x, y] @ b) (Some e)) =
             fst (decodeBody a (Some e)) @ [hexValue x * 16 + hexValue y] @
             fst (decodeBody b (Some e))"
    if "isUpperHex x" "isUpperHex y" for a b x y
    unfolding decodeBody_qp[OF assms] fst_conv
      removeSoftBreaks_escape[OF that] replaceEscapes_escape[OF that] ..
  show ?thesis
    using decodeBody_qp[OF assms] removeSoftBreaks_break esc hex_byte by blast
qed

text \<open>
  An escape in lower-case hexadecimal digits is left as it is: \<open>caf=e9\<close> is returned
  unchanged, where the decoding of every two-digit hexadecimal escape ends in the
  character U+00E9.
\<close>

theorem decodeBody_quotedPrintable_counterexample:
  "fst (decodeBody (js ''caf=e9'') (Some (js ''quoted-printable''))) = js ''caf=e9''
   \<and> spec_decodeQuotedPrintable (js ''caf=e9'') = js ''caf'' @ [0xE9]"
proof -
  have l: "toLowerCase (js ''quoted-printable'') = js ''quoted-printable''"
    by (simp add: string_defs)
  have c: "replaceEscapes (removeSoftBreaks (js ''caf=e9'')) = js ''caf=e9''"
    by (simp add: js_def isUpperHex_def)
  have s: "spec_decodeQuotedPrintable (js ''caf=e9'') = js ''caf'' @ [0xE9]"
    by (simp add: spec_decodeQuotedPrintable_def js_def isHexDigit_def hexValue_def
          isLineTerminator_def CRLF_def)
  show ?thesis using decodeBody_qp[OF l] c s by simp
qed

text \<open>An escape for \<open>=\<close> itself and a soft line break.\<close>

theorem decodeBody_quotedPrintable_witness:
  "decodeBody (js ''a=3Db='' @ CRLF @ js ''c'') (Some (js ''Quoted-Printable'')) = (js ''a=bc'', [])
   \<and> isUpperHex 0x33 \<and> isUpperHex 0x44 \<and> hexValue 0x33 * 16 + hexValue 0x44 = 0x3D"
proof -
  have l: "toLowerCase (js ''Quoted-Printable'') = js ''quoted-printable''"
    by (simp add: string_defs)
  have c: "replaceEscapes (removeSoftBreaks (js ''a=3Db='' @ CRLF @ js ''c'')) = js ''a=bc''"
    by (simp add: js_def isUpperHex_def hexValue_def CRLF_def)
  have h: "isUpperHex 0x33" "isUpperHex 0x44" "hexValue 0x33 * 16 + hexValue 0x44 = 0x3D"
    by (simp_all add: isUpperHex_def hexValue_def)
  from decodeBody_quotedPrintable[OF l, of "js ''a=3Db='' @ CRLF @ js ''c''"]
  show ?thesis using c h by simp
qed

section \<open>Base64: failure and fallback\<close>

lemma stripPadding_keeps:
  assumes "c \<in> set d" "c \<noteq> 0x3D"
  shows "c \<in> set (stripPadding d)"
proof (cases "rev d")
  case Nil
  then show ?thesis using assms by (simp add: stripPadding_def)
next
  case (Cons p r)
  note outer = Cons
  show ?thesis
  proof (cases r)
    case Nil
    then show ?thesis using assms outer by (simp add: stripPadding_def)
  next
    case (Cons q r')
    have "set d = set (rev d)" by simp
    also have "\<dots> = insert p (insert q (set r'))" unfolding outer Cons by simp
    finally have d: "set d = insert p (insert q (set r'))" .
    show ?thesis using assms d by (auto simp: stripPadding_def outer Cons)
  qed
qed

lemma stripPadding_unaligned: "length d mod 4 \<noteq> 0 \<Longrightarrow> stripPadding d = d"
  by (simp add: stripPadding_def)

lemma not_base64_equals: "\<not> isBase64Unit 0x3D"
  by (simp add: isBase64Unit_def)

lemma atob_fails_iff:
  "(\<exists>err. atob body = Inl err) \<longleftrightarrow>
     (let d = stripPadding (filter (\<lambda>c. \<not> isAsciiWhitespace c) body)
      in length d mod 4 = 1 \<or> (\<exists>c\<in>set d. \<not> isBase64Unit c))"
  by (auto simp: atob_def Let_def list_all_iff)

lemma atob_error: "atob body = Inl err \<Longrightarrow> err = InvalidCharacterError"
  by (auto simp: atob_def Let_def split: if_splits)

lemma atob_invalid_character:
  assumes "c \<in> set body" "\<not> isAsciiWhitespace c" "\<not> isBase64Unit c" "c \<noteq> 0x3D"
  shows "atob body = Inl InvalidCharacterError"
proof -
  have "c \<in> set (stripPadding (filter (\<lambda>c. \<not> isAsciiWhitespace c) body))"
    using assms by (intro stripPadding_keeps) auto
  then show ?thesis using assms(3) by (auto simp: atob_def Let_def list_all_iff)
qed

lemma atob_misaligned_padding:
  assumes "0x3D \<in> set body" "length (filter (\<lambda>c. \<not> isAsciiWhitespace c) body) mod 4 \<noteq> 0"
  shows "atob body = Inl InvalidCharacterError"
proof -
  have "\<not> isAsciiWhitespace 0x3D" by (simp add: isAsciiWhitespace_def)
  with assms(1) have "0x3D \<in> set (filter (\<lambda>c. \<not> isAsciiWhitespace c) body)" by simp
  then have "0x3D \<in> set (stripPadding (filter (\<lambda>c. \<not> isAsciiWhitespace c) body))"
    using assms(2) by (simp add: stripPadding_unaligned)
  then show ?thesis using not_base64_equals by (auto simp: atob_def Let_def list_all_iff)
qed

lemma decodeBody_base64:
  assumes "toLowerCase e = js ''base64''"
  shows "decodeBody body (Some e) = decodeBase64 body"
proof -
  have "e \<noteq> []" using assms toLowerCase_Nil_iff[of e] by (auto simp: js_def)
  then show ?thesis using assms by (simp add: decodeBody_def)
qed

lemma decodeBody_cases:
  "decodeBody body enc = (body, []) \<or> decodeBody body enc = decodeBase64 body \<or>
   decodeBody body enc = decodeQuotedPrintable body"
  by (simp add: decodeBody_def split: option.splits)

text \<open>
  C7. \<open>decodeBody\<close> always returns a string: each encoding leads to the body itself or
  to one of the two decoders, whose only exception, that of \<open>atob\<close>, is caught. When
  the encoding is base64 in any case and \<open>atob\<close> rejects the body, which it does exactly
  when, after the removal of whitespace and of aligned padding, the length is one modulo
  four or a code unit is outside the base64 alphabet (so for any invalid character and for
  padding in a text whose length is not a multiple of four), the result is the original
  string, unchanged, with one warning; otherwise it is the decoding of all of the body.
\<close>

theorem decodeBody_base64_fallback:
  assumes "toLowerCase e = js ''base64''"
  shows "decodeBody body (Some e) =
           (case atob body of
              Inl err \<Rightarrow> (body, [Failed_to_decode_base64 InvalidCharacterError])
            | Inr bin \<Rightarrow> (textDecode bin, []))
       \<and> ((\<exists>err. atob body = Inl err) \<longleftrightarrow>
            (let d = stripPadding (filter (\<lambda>c. \<not> isAsciiWhitespace c) body)
             in length d mod 4 = 1 \<or> (\<exists>c\<in>set d. \<not> isBase64Unit c)))
       \<and> ((\<exists>c\<in>set body. \<not> isAsciiWhitespace c \<and> \<not> isBase64Unit c \<and> c \<noteq> 0x3D) \<longrightarrow>
            decodeBody body (Some e) = (body, [Failed_to_decode_base64 InvalidCharacterError]))
       \<and> (0x3D \<in> set body \<and> length (filter (\<lambda>c. \<not> isAsciiWhitespace c) body) mod 4 \<noteq> 0 \<longrightarrow>
            decodeBody body (Some e) = (body, [Failed_to_decode_base64 InvalidCharacterError]))
       \<and> (\<forall>enc. decodeBody body enc = (body, []) \<or> decodeBody body enc = decodeBase64 body \<or>
                 decodeBody body enc = decodeQuotedPrintable body)"
proof -
  have a: "decodeBody body (Some e) =
           (case atob body of
              Inl err \<Rightarrow> (body, [Failed_to_decode_base64 InvalidCharacterError])
            | Inr bin \<Rightarrow> (textDecode bin, []))"
    unfolding decodeBody_base64[OF assms] decodeBase64_def
    by (auto split: sum.splits dest: atob_error)
  have b: "(\<exists>c\<in>set body. \<not> isAsciiWhitespace c \<and> \<not> isBase64Unit c \<and> c \<noteq> 0x3D) \<longrightarrow>
            decodeBody body (Some e) = (body, [Failed_to_decode_base64 InvalidCharacterError])"
    unfolding a using atob_invalid_character by fastforce
  have c: "0x3D \<in> set body \<and> length (filter (\<lambda>c. \<not> isAsciiWhitespace c) body) mod 4 \<noteq> 0 \<longrightarrow>
            decodeBody body (Some e) = (body, [Failed_to_decode_base64 InvalidCharacterError])"
    unfolding a using atob_misaligned_padding by fastforce
  from a b c atob_fails_iff[of body] decodeBody_cases[of body] show ?thesis by blast
qed

text \<open>
  A length of one modulo four, an invalid character, misaligned padding, and a valid text
  with whitespace in it.
\<close>

theorem decodeBody_base64_fallback_witness:
  "decodeBody (js ''SGVsb'') (Some (js ''Base64'')) =
     (js ''SGVsb'', [Failed_to_decode_base64 InvalidCharacterError])
   \<and> decodeBody (js ''SGk=!'') (Some (js ''Base64'')) =
     (js ''SGk=!'', [Failed_to_decode_base64 InvalidCharacterError])
   \<and> decodeBody (js ''SGk=='') (Some (js ''Base64'')) =
     (js ''SGk=='', [Failed_to_decode_base64 InvalidCharacterError])
   \<and> decodeBody (js ''SGVs bG8='') (Some (js ''Base64'')) = (js ''Hello'', [])"
proof -
  have l: "toLowerCase (js ''Base64'') = js ''base64''"
    by (simp add: string_defs)
  have a1: "atob (js ''SGVsb'') = Inl InvalidCharacterError"
    by (simp add: js_def decoder_defs)
  have m2: "\<exists>c\<in>set (js ''SGk=!''). \<not> isAsciiWhitespace c \<and> \<not> isBase64Unit c \<and> c \<noteq> 0x3D"
    by (simp add: js_def isAsciiWhitespace_def isBase64Unit_def)
  have m3: "0x3D \<in> set (js ''SGk=='') \<and>
      length (filter (\<lambda>c. \<not> isAsciiWhitespace c) (js ''SGk=='')) mod 4 \<noteq> 0"
    by (simp add: js_def isAsciiWhitespace_def)
  have a4: "atob (js ''SGVs bG8='') = Inr (js ''Hello'')"
    by (simp add: js_def decoder_defs)
  have t4: "textDecode (js ''Hello'') = js ''Hello''"
    by (simp add: js_def textDecode_def stripBOM_def)
  have r1: "decodeBody (js ''SGVsb'') (Some (js ''Base64'')) =
     (js ''SGVsb'', [Failed_to_decode_base64 InvalidCharacterError])"
    using decodeBody_base64_fallback[OF l, of "js ''SGVsb''"] by (simp add: a1)
  have r2: "decodeBody (js ''SGk=!'') (Some (js ''Base64'')) =
     (js ''SGk=!'', [Failed_to_decode_base64 InvalidCharacterError])"
    using decodeBody_base64_fallback[OF l, of "js ''SGk=!''"] m2 by blast
  have r3: "decodeBody (js ''SGk=='') (Some (js ''Base64'')) =
     (js ''SGk=='', [Failed_to_decode_base64 InvalidCharacterError])"
    using decodeBody_base64_fallback[OF l, of "js ''SGk==''"] m3 by blast
  have r4: "decodeBody (js ''SGVs bG8='') (Some (js ''Base64'')) = (js ''Hello'', [])"
    using decodeBody_base64_fallback[OF l, of "js ''SGVs bG8=''"] by (simp add: a4 t4)
  from r1 r2 r3 r4 show ?thesis by blast
qed

section \<open>Folded headers in the raw path\<close>




lemma foldLine_header:
  "\<not> leadingSpace line \<Longrightarrow> headerMatch line = Some (name, v) \<Longrightarrow>
   foldLine line st = (saveHeader st)\<lparr>currentHeader := name, currentValue := v\<rparr>"
  by (simp add: foldLine_def)

lemma saveHeader_fields [simp]:
  "currentHeader (saveHeader st) = currentHeader st"
  "currentValue (saveHeader st) = currentValue st"
  by (simp_all add: saveHeader_def)









section \<open>The raw path against the structured path\<close>

text \<open>
  C2. The raw path is claimed to give the same final string as the structured path on the
  parsed headers and the extracted body. The raw path keeps the whole Content-Type header
  as the content type and looks for \<open>multipart/\<close> in it without lower-casing, where
  \<open>getContentInfo\<close> truncates, trims and lower-cases. On the message below, whose type is
  written \<open>Multipart/Mixed\<close>, the raw path prints the undivided body and the structured
  path prints the text/plain part.
\<close>

theorem raw_path_differs:
  "rawPath (js ''Content-Type: Multipart/Mixed; boundary=b'' @ CRLFCRLF @
            js ''--b'' @ CRLF @ js ''Content-Type: text/plain'' @ CRLFCRLF @
            js ''Hello'' @ CRLF @ js ''--b--'' @ CRLF) =
     Some (js ''--b'' @ CRLF @ js ''Content-Type: text/plain'' @ CRLFCRLF @
           js ''Hello'' @ CRLF @ js ''--b--'' @ CRLF, [])
   \<and> structuredPath
       (map_option Single \<circ> parseBlock (js ''Content-Type: Multipart/Mixed; boundary=b''))
       (js ''--b'' @ CRLF @ js ''Content-Type: text/plain'' @ CRLFCRLF @
        js ''Hello'' @ CRLF @ js ''--b--'' @ CRLF) =
     Inr (js ''Hello'' @ CRLF, [])"
proof -
  let ?hdr = "js ''Content-Type: Multipart/Mixed; boundary=b''"
  let ?val = "js ''Multipart/Mixed; boundary=b''"
  let ?p1 = "js ''--b'' @ CRLF @ js ''Content-Type: text/plain''"
  let ?p2 = "js ''Hello'' @ CRLF @ js ''--b--'' @ CRLF"
  let ?body = "js ''--b'' @ CRLF @ js ''Content-Type: text/plain'' @ CRLFCRLF @
        js ''Hello'' @ CRLF @ js ''--b--'' @ CRLF"
  have s: "js_split (?hdr @ CRLFCRLF @ ?body) CRLFCRLF = [?hdr, ?p1, ?p2]"
    by (simp add: string_defs)
  have j: "js_join CRLFCRLF [?p1, ?p2] = ?body"
    by simp
  have hl: "js_split ?hdr CRLF = [?hdr]"
    by (simp add: string_defs)
  have hm: "headerMatch ?hdr = Some (js ''Content-Type'', ?val)" "\<not> leadingSpace ?hdr"
    by (simp_all add: string_defs regex_defs)
  have ne: "js ''Content-Type'' \<noteq> []"
    by (simp add: js_def)
  have pb: "parseBlock ?hdr = [js ''Content-Type'' \<mapsto> ?val]"
    unfolding parseBlock_def hl using ne
    by (simp add: foldLine_header[OF hm(2) hm(1)] saveHeader_def)
  have bm: "boundaryMatch ?val = Some (js ''b'')"
    by (simp add: string_defs regex_defs)
  have rci: "rawContentInfo [js ''Content-Type'' \<mapsto> ?val] =
      \<lparr>contentType = ?val, encoding = js ''7bit'', boundary = Some (js ''b'')\<rparr>"
    unfolding rawContentInfo_def using bm by (simp add: present_def orDefault_def js_def)
  have inc: "\<not> js_includes ?val (js ''multipart/'')"
    by (simp add: js_def)
  have low: "\<not> js_includes (toLowerCase ?val) (js ''html'')"
    by (simp add: string_defs)
  have sp: "singlePart False (js ''7bit'') ?body = (?body, [])"
    by (simp add: singlePart_def decodeBody_def string_defs)
  have raw: "rawPath (?hdr @ CRLFCRLF @ ?body) = Some (?body, [])"
    unfolding rawPath_def s by (simp add: pb rci inc low sp del: js_join.simps) (simp add: sp)
  have h1: "headerString (map_option Single \<circ> [js ''Content-Type'' \<mapsto> ?val]) (js ''Content-Type'')
      = Inr (Some ?val)"
    by (simp add: headerString_def js_def)
  have h2: "headerString (map_option Single \<circ> [js ''Content-Type'' \<mapsto> ?val])
      (js ''Content-Transfer-Encoding'') = Inr None"
    by (simp add: headerString_def js_def)
  have t: "typeMatch ?val = Some (js ''Multipart/Mixed'')"
    by (simp add: string_defs regex_defs)
  have l: "toLowerCase (trim (js ''Multipart/Mixed'')) = js ''multipart/mixed''"
    by (simp add: string_defs)
  have gci: "getContentInfo (map_option Single \<circ> [js ''Content-Type'' \<mapsto> ?val]) =
      Inr \<lparr>contentType = js ''multipart/mixed'', encoding = js ''7bit'', boundary = Some (js ''b'')\<rparr>"
    unfolding getContentInfo_def h1 h2 using t l bm by simp
  have sw: "startsWith (js ''multipart/mixed'') (js ''multipart/'')"
    by (simp add: js_def)
  have nb: "js ''b'' \<noteq> []"
    by (simp add: js_def)
  have pm: "parseMultipartMessage ?body (js ''b'') = (js ''Hello'' @ CRLF, [])"
    by (simp add: string_defs regex_defs multipart_defs decodeBody_def)
  have str: "structuredPath (map_option Single \<circ> parseBlock ?hdr) ?body = Inr (js ''Hello'' @ CRLF, [])"
    unfolding structuredPath_def pb gci
    using nb by (simp add: structuredBody_def sw present_def orDefault_def pm)
  from raw str show ?thesis by simp
qed

section \<open>The base64 round trip\<close>

lemma base64Unit_props:
  "v < 64 \<Longrightarrow> base64Value (base64Unit v) = v"
  "isBase64Unit (base64Unit v)"
  "\<not> isAsciiWhitespace (base64Unit v)"
  "base64Unit v \<noteq> 0x3D"
  by (auto simp: base64Unit_def base64Value_def isBase64Unit_def isAsciiWhitespace_def)

lemma div_small: "y < n \<Longrightarrow> (x * n + y) div n = (x::nat)"
  by simp

lemma mod_small: "y < n \<Longrightarrow> (x * n + y) mod n = (y::nat)"
  by simp

lemma byte_parts:
  assumes "b < (256::nat)"
  shows "b div 16 < 16" "b div 64 < 4" "b div 4 < 64"
  using assms by (simp_all add: less_mult_imp_div_less)

lemma sextets_small: "\<forall>b\<in>set bs. b < 256 \<Longrightarrow> \<forall>v\<in>set (base64Sextets bs). v < 64"
proof (induction bs rule: base64Sextets.induct)
  case (1 a b c rest)
  then have "a < 256" "b < 256" "c < 256" by simp_all
  then have "a div 4 < 64" "b div 16 < 16" "c div 64 < 4" by (simp_all add: byte_parts)
  moreover have "a mod 4 < 4" "b mod 16 < 16" "c mod 64 < 64" by simp_all
  ultimately have "a div 4 < 64" "a mod 4 * 16 + b div 16 < 64" "b mod 16 * 4 + c div 64 < 64"
    "c mod 64 < 64" by linarith+
  with 1 show ?case by simp
next
  case (2 a b)
  then have "a < 256" "b < 256" by simp_all
  then have "a div 4 < 64" "b div 16 < 16" by (simp_all add: byte_parts)
  moreover have "a mod 4 < 4" "b mod 16 < 16" by simp_all
  ultimately have "a div 4 < 64" "a mod 4 * 16 + b div 16 < 64" "b mod 16 * 4 < 64"
    by linarith+
  then show ?case by simp
next
  case (3 a)
  then have "a < 256" by simp
  then have "a div 4 < 64" by (simp add: byte_parts)
  moreover have "a mod 4 < 4" by simp
  ultimately have "a div 4 < 64" "a mod 4 * 16 < 64" by linarith+
  then show ?case by simp
next
  case 4
  show ?case by simp
qed

lemma sextetsToBytes_sextets:
  "\<forall>b\<in>set bs. b < 256 \<Longrightarrow> sextetsToBytes (base64Sextets bs) = bs"
proof (induction bs rule: base64Sextets.induct)
  case (1 a b c rest)
  then have "b < 256" "c < 256" by simp_all
  then have s: "b div 16 < 16" "c div 64 < 4" by (simp_all add: byte_parts)
  have "a div 4 * 4 + (a mod 4 * 16 + b div 16) div 16 = a"
    "(a mod 4 * 16 + b div 16) mod 16 * 16 + (b mod 16 * 4 + c div 64) div 4 = b"
    "(b mod 16 * 4 + c div 64) mod 4 * 64 + c mod 64 = c"
    by (simp_all only: div_small[OF s(1)] mod_small[OF s(1)] div_small[OF s(2)]
          mod_small[OF s(2)] div_mult_mod_eq)
  with 1 show ?case by simp
next
  case (2 a b)
  then have "b < 256" by simp
  then have s: "b div 16 < 16" by (simp add: byte_parts)
  have z: "(0::nat) < 4" by simp
  have "a div 4 * 4 + (a mod 4 * 16 + b div 16) div 16 = a"
    "(a mod 4 * 16 + b div 16) mod 16 * 16 + (b mod 16 * 4) div 4 = b"
    by (simp_all only: div_small[OF s] mod_small[OF s] div_mult_mod_eq
          nonzero_mult_div_cancel_right)
  then show ?case by simp
next
  case (3 a)
  have "(a mod 4 * 16) div 16 = a mod 4" by simp
  then have "a div 4 * 4 + (a mod 4 * 16) div 16 = a" by simp
  then show ?case by simp
next
  case 4
  show ?case by simp
qed

lemma stripPadding_append:
  assumes "length pre mod 4 = 0" "2 \<le> length X"
  shows "stripPadding (pre @ X) = pre @ stripPadding X"
proof -
  from assms(2) obtain p q r where r: "rev X = p # q # r"
    by (cases "rev X"; cases "tl (rev X)") (auto simp: Suc_le_eq dest: arg_cong[where f=length])
  have m: "length (pre @ X) mod 4 = length X mod 4"
    using assms(1) by (simp add: mod_add_left_eq[symmetric, of "length pre"])
  have X: "X = rev r @ [q, p]" using r by (metis rev_rev_ident rev.simps append.assoc append_Cons append_Nil)
  show ?thesis
    unfolding stripPadding_def m by (simp add: r X)
qed

lemma base64Encode_length: "bs \<noteq> [] \<Longrightarrow> 2 \<le> length (base64Encode bs)"
  by (cases bs rule: base64Encode.cases) simp_all

lemma stripPadding_base64Encode:
  "stripPadding (base64Encode bs) = map base64Unit (base64Sextets bs)"
proof (induction bs rule: base64Sextets.induct)
  case (1 a b c rest)
  let ?four = "[base64Unit (a div 4), base64Unit ((a mod 4) * 16 + b div 16),
      base64Unit ((b mod 16) * 4 + c div 64), base64Unit (c mod 64)]"
  show ?case
  proof (cases "rest = []")
    case True
    then show ?thesis by (simp add: stripPadding_def base64Unit_props)
  next
    case False
    have "stripPadding (?four @ base64Encode rest) = ?four @ stripPadding (base64Encode rest)"
      by (rule stripPadding_append) (simp_all add: base64Encode_length[OF False])
    then show ?thesis using 1 by simp
  qed
next
  case (2 a b)
  show ?case by (simp add: stripPadding_def base64Unit_props)
next
  case (3 a)
  show ?case by (simp add: stripPadding_def base64Unit_props)
next
  case 4
  show ?case by (simp add: stripPadding_def)
qed

lemma base64Encode_no_whitespace:
  "filter (\<lambda>c. \<not> isAsciiWhitespace c) (base64Encode bs) = base64Encode bs"
proof -
  have e: "\<not> isAsciiWhitespace 0x3D" by (simp add: isAsciiWhitespace_def)
  have "\<forall>c\<in>set (base64Encode bs). \<not> isAsciiWhitespace c"
    by (induction bs rule: base64Encode.induct) (simp_all add: base64Unit_props e)
  then show ?thesis by (simp add: filter_id_conv)
qed

lemma sextets_length: "length (base64Sextets bs) mod 4 \<noteq> 1"
  by (induction bs rule: base64Sextets.induct) simp_all

lemma atob_base64Encode:
  assumes "\<forall>b\<in>set bs. b < 256"
  shows "atob (base64Encode bs) = Inr bs"
proof -
  have v: "map base64Value (map base64Unit (base64Sextets bs)) = base64Sextets bs"
    using sextets_small[OF assms] by (simp add: map_idI base64Unit_props)
  have a: "list_all isBase64Unit (map base64Unit (base64Sextets bs))"
    by (simp add: list_all_iff base64Unit_props)
  show ?thesis
    unfolding atob_def base64Encode_no_whitespace stripPadding_base64Encode Let_def
    using sextets_length[of bs] a v sextetsToBytes_sextets[OF assms] by simp
qed
lemma lead_mod:
  "q < 32 \<Longrightarrow> (192 + q) mod 32 = (q::nat)"
  "q < 16 \<Longrightarrow> (224 + q) mod 16 = (q::nat)"
  "q < 8 \<Longrightarrow> (240 + q) mod 8 = (q::nat)"
  "q < 64 \<Longrightarrow> (128 + q) mod 64 = (q::nat)"
  using mod_small[of q 32 6] mod_small[of q 16 14] mod_small[of q 8 30] mod_small[of q 64 2]
  by (simp_all add: add.commute)

lemma utf8Decode_2:
  assumes "2 \<le> q" "q < 32" "r < 64"
  shows "utf8Decode 0 0 0 0x80 0xBF ((0xC0 + q) # (0x80 + r) # bs) =
           (q * 64 + r) # utf8Decode 0 0 0 0x80 0xBF bs"
  using assms by (auto simp: lead_mod)

lemma utf8Decode_3:
  assumes "p < 16" "q < 64" "r < 64" "p = 0 \<longrightarrow> 32 \<le> q" "p = 13 \<longrightarrow> q < 32"
  shows "utf8Decode 0 0 0 0x80 0xBF ((0xE0 + p) # (0x80 + q) # (0x80 + r) # bs) =
           ((p * 64 + q) * 64 + r) # utf8Decode 0 0 0 0x80 0xBF bs"
  using assms by (auto simp: lead_mod)

lemma utf8Decode_4:
  assumes "o' < 5" "p < 64" "q < 64" "r < 64" "o' = 0 \<longrightarrow> 16 \<le> p" "o' = 4 \<longrightarrow> p < 16"
  shows "utf8Decode 0 0 0 0x80 0xBF
           ((0xF0 + o') # (0x80 + p) # (0x80 + q) # (0x80 + r) # bs) =
           (((o' * 64 + p) * 64 + q) * 64 + r) # utf8Decode 0 0 0 0x80 0xBF bs"
  using assms by (auto simp: lead_mod)

lemma digits2:
  fixes c :: nat
  shows "c = (c div 64) * 64 + c mod 64"
  by (simp add: div_mult_mod_eq)

lemma digits3:
  fixes c :: nat
  shows "c = ((c div 4096) * 64 + (c div 64) mod 64) * 64 + c mod 64"
proof -
  have "c div 4096 = c div 64 div 64"
    by (simp add: div_mult2_eq[symmetric])
  then have "c div 64 = (c div 4096) * 64 + (c div 64) mod 64"
    by (simp add: div_mult_mod_eq)
  then show ?thesis by (simp add: div_mult_mod_eq)
qed

lemma digits4:
  fixes c :: nat
  shows "c = (((c div 262144) * 64 + (c div 4096) mod 64) * 64 + (c div 64) mod 64) * 64 + c mod 64"
proof -
  have "c div 262144 = c div 4096 div 64"
    by (simp add: div_mult2_eq[symmetric])
  then have "c div 4096 = (c div 262144) * 64 + (c div 4096) mod 64"
    by (simp add: div_mult_mod_eq)
  then show ?thesis using digits3[of c] by simp
qed

lemma utf8_point:
  assumes "c < 0xD800 \<or> (0xDFFF < c \<and> c < 0x110000)"
  shows "utf8Decode 0 0 0 0x80 0xBF (utf8EncodePoint c @ bs) =
           c # utf8Decode 0 0 0 0x80 0xBF bs
         \<and> (\<forall>b\<in>set (utf8EncodePoint c). b < 256)"
proof -
  define o' p q r where "o' = c div 262144" and "p = (c div 4096) mod 64"
    and "q = (c div 64) mod 64" and "r = c mod 64"
  define p' q' where "p' = c div 4096" and "q' = c div 64"
  have small: "p < 64" "q < 64" "r < 64" by (simp_all add: p_def q_def r_def)
  have d2: "c = q' * 64 + r" unfolding q'_def r_def by (rule digits2)
  have d3: "c = (p' * 64 + q) * 64 + r" unfolding p'_def q_def r_def by (rule digits3)
  have d4: "c = ((o' * 64 + p) * 64 + q) * 64 + r"
    unfolding o'_def p_def q_def r_def by (rule digits4)
  consider "c < 0x80" | "0x80 \<le> c" "c < 0x800" | "0x800 \<le> c" "c < 0x10000"
    | "0x10000 \<le> c" "c < 0x110000"
    using assms by linarith
  then show ?thesis
  proof cases
    case 1
    then show ?thesis by (simp add: utf8EncodePoint_def)
  next
    case 2
    have b: "2 \<le> q' \<and> q' < 32" using d2 small 2 by auto
    have e: "utf8EncodePoint c = [0xC0 + q', 0x80 + r]"
      using 2 by (simp add: utf8EncodePoint_def q'_def r_def)
    have "utf8Decode 0 0 0 0x80 0xBF ((0xC0 + q') # (0x80 + r) # bs) =
           (q' * 64 + r) # utf8Decode 0 0 0 0x80 0xBF bs"
      using b small by (intro utf8Decode_2) auto
    then show ?thesis unfolding e using d2 b small by auto
  next
    case 3
    have b: "p' < 16 \<and> (p' = 0 \<longrightarrow> 32 \<le> q) \<and> (p' = 13 \<longrightarrow> q < 32)"
      using d3 small 3 assms by auto
    have e: "utf8EncodePoint c = [0xE0 + p', 0x80 + q, 0x80 + r]"
      using 3 by (simp add: utf8EncodePoint_def p'_def q_def r_def)
    have "utf8Decode 0 0 0 0x80 0xBF ((0xE0 + p') # (0x80 + q) # (0x80 + r) # bs) =
           ((p' * 64 + q) * 64 + r) # utf8Decode 0 0 0 0x80 0xBF bs"
      using b small by (intro utf8Decode_3) auto
    then show ?thesis unfolding e using d3 b small by auto
  next
    case 4
    have b: "o' < 5 \<and> (o' = 0 \<longrightarrow> 16 \<le> p) \<and> (o' = 4 \<longrightarrow> p < 16)"
      using d4 small 4 by auto
    have e: "utf8EncodePoint c = [0xF0 + o', 0x80 + p, 0x80 + q, 0x80 + r]"
      using 4 by (simp add: utf8EncodePoint_def o'_def p_def q_def r_def)
    have "utf8Decode 0 0 0 0x80 0xBF ((0xF0 + o') # (0x80 + p) # (0x80 + q) # (0x80 + r) # bs) =
           (((o' * 64 + p) * 64 + q) * 64 + r) # utf8Decode 0 0 0 0x80 0xBF bs"
      using b small by (intro utf8Decode_4) auto
    then show ?thesis unfolding e using d4 b small by auto
  qed
qed

lemma utf8_points:
  assumes "\<forall>c\<in>set cps. c < 0xD800 \<or> (0xDFFF < c \<and> c < 0x110000)"
  shows "utf8Decode 0 0 0 0x80 0xBF (concat (map utf8EncodePoint cps)) = cps
       \<and> (\<forall>b\<in>set (concat (map utf8EncodePoint cps)). b < 256)"
  using assms
proof (induction cps)
  case Nil
  show ?case by simp
next
  case (Cons c cps)
  then have c: "c < 0xD800 \<or> (0xDFFF < c \<and> c < 0x110000)" by simp
  from utf8_point[OF c, of "concat (map utf8EncodePoint cps)"] Cons
  show ?case by auto
qed

lemma surrogate_pair:
  assumes "isHighSurrogate h" "isLowSurrogate l"
  shows "utf16Encode [0x10000 + (h - 0xD800) * 0x400 + (l - 0xDC00)] = [h, l]"
    and "0xDFFF < 0x10000 + (h - 0xD800) * 0x400 + (l - 0xDC00)"
    and "0x10000 + (h - 0xD800) * 0x400 + (l - 0xDC00) < 0x110000"
proof -
  define x y where "x = h - 0xD800" and "y = l - 0xDC00"
  have b: "x < 0x400" "y < 0x400" "h = 0xD800 + x" "l = 0xDC00 + y"
    using assms by (auto simp: isHighSurrogate_def isLowSurrogate_def x_def y_def)
  have d: "(x * 0x400 + y) div 0x400 = x" "(x * 0x400 + y) mod 0x400 = y"
    using b(2) by simp_all
  show "utf16Encode [0x10000 + (h - 0xD800) * 0x400 + (l - 0xDC00)] = [h, l]"
    unfolding x_def[symmetric] y_def[symmetric] using d b by simp
  show "0xDFFF < 0x10000 + (h - 0xD800) * 0x400 + (l - 0xDC00)" by simp
  show "0x10000 + (h - 0xD800) * 0x400 + (l - 0xDC00) < 0x110000"
    unfolding x_def[symmetric] y_def[symmetric] using b by auto
qed

lemma utf16Encode_Cons: "utf16Encode (c # cs) = utf16Encode [c] @ utf16Encode cs"
  by simp

lemma codePoints_representable:
  "representable s \<Longrightarrow>
     utf16Encode (codePoints s) = s \<and>
     (\<forall>c\<in>set (codePoints s). c < 0xD800 \<or> (0xDFFF < c \<and> c < 0x110000))"
proof (induction s rule: representable.induct)
  case 1
  show ?case by simp
next
  case (2 c)
  then show ?case by (auto simp: isHighSurrogate_def isLowSurrogate_def)
next
  case (3 h l rest)
  show ?case
  proof (cases "isHighSurrogate h")
    case True
    with 3 have l: "isLowSurrogate l" and r: "representable rest" by simp_all
    note sp = surrogate_pair[OF True l]
    have "utf16Encode (codePoints (h # l # rest)) =
        utf16Encode [0x10000 + (h - 0xD800) * 0x400 + (l - 0xDC00)] @ utf16Encode (codePoints rest)"
      using True l by (simp del: utf16Encode.simps add: utf16Encode_Cons[symmetric])
    then show ?thesis using sp 3(1)[OF True] r True l
      by (simp del: utf16Encode.simps)
  next
    case False
    with 3 have h: "h < 0xD800 \<or> (0xDFFF < h \<and> h < 0x10000)" and r: "representable (l # rest)"
      by simp_all
    have nl: "\<not> isLowSurrogate h" using h by (auto simp: isLowSurrogate_def)
    show ?thesis using 3(2)[OF False] r h False nl by auto
  qed
qed

lemma stripBOM_units:
  assumes "representable s"
  shows "utf16Encode (stripBOM (codePoints s)) = stripBOM s"
proof (cases s rule: representable.cases)
  case 1
  then show ?thesis by (simp add: stripBOM_def)
next
  case (2 c)
  then show ?thesis using assms by (auto simp: stripBOM_def isHighSurrogate_def isLowSurrogate_def)
next
  case (3 h l rest)
  show ?thesis
  proof (cases "isHighSurrogate h")
    case True
    with 3 assms have l: "isLowSurrogate l" by simp
    have "stripBOM (codePoints s) = codePoints s"
      using True l surrogate_pair(2)[OF True l] unfolding 3 by (simp add: stripBOM_def)
    moreover have "stripBOM s = s"
      using True unfolding 3 by (simp add: stripBOM_def isHighSurrogate_def)
    ultimately show ?thesis using codePoints_representable[OF assms] by simp
  next
    case False
    with 3 assms have h: "h < 0xD800 \<or> (0xDFFF < h \<and> h < 0x10000)" and r: "representable (l # rest)"
      by simp_all
    have nl: "\<not> isLowSurrogate h" using h by (auto simp: isLowSurrogate_def)
    have cp: "codePoints (h # l # rest) = h # codePoints (l # rest)"
      using False nl by simp
    have u: "utf16Encode (codePoints (l # rest)) = l # rest"
      using codePoints_representable[OF r] by blast
    have h1: "utf16Encode [h] = [h]"
      using h by auto
    have "utf16Encode (h # codePoints (l # rest)) = h # l # rest"
      unfolding utf16Encode_Cons[of h "codePoints (l # rest)"] u h1 by simp
    then show ?thesis
      unfolding 3 cp using u
      by (simp add: stripBOM_def del: utf16Encode.simps codePoints.simps)
  qed
qed

lemma textDecode_utf8Encode:
  assumes "representable s"
  shows "textDecode (utf8Encode s) = stripBOM s \<and> (\<forall>b\<in>set (utf8Encode s). b < 256)"
  using utf8_points[of "codePoints s"] codePoints_representable[OF assms] stripBOM_units[OF assms]
  by (simp add: textDecode_def utf8Encode_def)

text \<open>
  C10, as the code has it. For every string \<open>s\<close> representable in UTF-8, decoding the
  base64 encoding of its UTF-8 bytes gives \<open>s\<close> without its leading U+FEFF, if it has
  one, and no warning: the \<open>TextDecoder\<close> removes a byte order mark. So the round trip
  is exact for every representable string that does not begin with U+FEFF.
\<close>

theorem base64_round_trip:
  assumes "representable s" "toLowerCase e = js ''base64''"
  shows "decodeBody (encodeBase64 s) (Some e) = (stripBOM s, [])
       \<and> (\<not> startsWith s [0xFEFF] \<longrightarrow> decodeBody (encodeBase64 s) (Some e) = (s, []))"
proof -
  note t = textDecode_utf8Encode[OF assms(1)]
  have a: "atob (base64Encode (utf8Encode s)) = Inr (utf8Encode s)"
    using t by (intro atob_base64Encode) simp
  have d: "decodeBody (encodeBase64 s) (Some e) = (stripBOM s, [])"
    unfolding decodeBody_base64[OF assms(2)] decodeBase64_def encodeBase64_def a using t by simp
  have "\<not> startsWith s [0xFEFF] \<Longrightarrow> stripBOM s = s"
    by (cases s) (simp_all add: stripBOM_def)
  with d show ?thesis by simp
qed

text \<open>
  The string that is the single character U+FEFF is representable; its UTF-8 bytes
  \<open>EF BB BF\<close> encode to \<open>77u/\<close>, which decodes to the empty string.
\<close>

theorem base64_round_trip_counterexample:
  "representable [0xFEFF] \<and> encodeBase64 [0xFEFF] = js ''77u/''
   \<and> decodeBody (js ''77u/'') (Some (js ''base64'')) = ([], [])"
proof -
  have r: "representable [0xFEFF]" by simp
  have u: "utf8Encode [0xFEFF] = [0xEF, 0xBB, 0xBF]"
    by (simp add: utf8Encode_def utf8EncodePoint_def isHighSurrogate_def isLowSurrogate_def)
  have e: "encodeBase64 [0xFEFF] = js ''77u/''"
    unfolding encodeBase64_def u by (simp add: base64Unit_def js_def)
  have a: "atob (js ''77u/'') = Inr [0xEF, 0xBB, 0xBF]"
    by (simp add: js_def decoder_defs)
  have t: "textDecode [0xEF, 0xBB, 0xBF] = []"
    by (simp add: textDecode_def stripBOM_def)
  have l: "toLowerCase (js ''base64'') = js ''base64''"
    by (simp add: string_defs)
  have "decodeBody (js ''77u/'') (Some (js ''base64'')) = ([], [])"
    unfolding decodeBody_base64[OF l] decodeBase64_def a using t by simp
  with r e show ?thesis by simp
qed

text \<open>
  A string with characters of one, two, three and four UTF-8 bytes, the last one a
  surrogate pair.
\<close>

theorem base64_round_trip_witness:
  "representable (js ''Hi'' @ [0xE9, 0x20AC, 0xD83D, 0xDE00])
   \<and> \<not> startsWith (js ''Hi'' @ [0xE9, 0x20AC, 0xD83D, 0xDE00]) [0xFEFF]
   \<and> encodeBase64 (js ''Hi'' @ [0xE9, 0x20AC, 0xD83D, 0xDE00]) = js ''SGnDqeKCrPCfmIA=''
   \<and> decodeBody (js ''SGnDqeKCrPCfmIA='') (Some (js ''BASE64'')) =
       (js ''Hi'' @ [0xE9, 0x20AC, 0xD83D, 0xDE00], [])"
proof -
  let ?s = "js ''Hi'' @ [0xE9, 0x20AC, 0xD83D, 0xDE00]"
  have r: "representable ?s"
    by (simp add: js_def isHighSurrogate_def isLowSurrogate_def)
  have n: "\<not> startsWith ?s [0xFEFF]"
    by (simp add: js_def)
  have c: "codePoints ?s = [0x48, 0x69, 0xE9, 0x20AC, 0x1F600]"
    by (simp add: js_def isHighSurrogate_def isLowSurrogate_def)
  have u: "utf8Encode ?s = [0x48, 0x69, 0xC3, 0xA9, 0xE2, 0x82, 0xAC, 0xF0, 0x9F, 0x98, 0x80]"
    unfolding utf8Encode_def c by (simp add: utf8EncodePoint_def)
  have e: "encodeBase64 ?s = js ''SGnDqeKCrPCfmIA=''"
    unfolding encodeBase64_def u by (simp add: base64Unit_def js_def)
  have l: "toLowerCase (js ''BASE64'') = js ''base64''"
    by (simp add: string_defs)
  from base64_round_trip[OF r l] n have "decodeBody (encodeBase64 ?s) (Some (js ''BASE64'')) = (?s, [])"
    by blast
  then show ?thesis using r n e by simp
qed

end
